theory Spec2Isabelle
  imports Complex_Main "HOL-Library.Multiset" "HOL-Library.Product_Lexorder"
begin

section \<open>Data model\<close>

text \<open>
  A shallow embedding of the migration engine of \<^verbatim>\<open>darwin\<close> (Go).

  Versions are \<^verbatim>\<open>float64\<close> in the source. The engine only compares versions
  (\<^verbatim>\<open><\<close>, \<^verbatim>\<open>>\<close>, \<^verbatim>\<open>==\<close>) and uses them as map keys. A \<^verbatim>\<open>float64\<close> is NaN, an
  infinity or a finite number; every finite \<^verbatim>\<open>float64\<close> is a rational, and \<^verbatim>\<open>-0\<close> and
  \<^verbatim>\<open>+0\<close>, which Go's comparisons and map keys identify, are both \<open>Num 0\<close>.
  \<^verbatim>\<open>strconv.ParseFloat\<close> returns NaN for \<^verbatim>\<open>NaN\<close> and an infinity for \<^verbatim>\<open>Inf\<close>, so a
  migration can have any of these as its version. Rounding happens only inside
  \<^verbatim>\<open>strconv.ParseFloat\<close>, which is a parameter of the parser below.
\<close>

datatype float64 = NaN | NegInf | Num rat | PosInf

text \<open>
  Go's \<^verbatim>\<open><\<close> and \<^verbatim>\<open>==\<close> on \<^verbatim>\<open>float64\<close>: every comparison with NaN is false, also
  \<^verbatim>\<open>NaN == NaN\<close>. (\<^verbatim>\<open>a > b\<close> is \<open>float64_less b a\<close>.)
\<close>

fun float64_less :: "float64 \<Rightarrow> float64 \<Rightarrow> bool" where
  "float64_less NaN b = False"
| "float64_less a NaN = False"
| "float64_less NegInf NegInf = False"
| "float64_less NegInf b = True"
| "float64_less (Num x) (Num y) = (x < y)"
| "float64_less (Num x) PosInf = True"
| "float64_less (Num x) NegInf = False"
| "float64_less PosInf b = False"

definition float64_eq :: "float64 \<Rightarrow> float64 \<Rightarrow> bool" where
  "float64_eq a b = (a = b \<and> a \<noteq> NaN)"

text \<open>
  A Go map with \<^verbatim>\<open>float64\<close> keys finds a key by \<^verbatim>\<open>==\<close>: an entry stored under NaN is
  never found again (each store under NaN adds an entry of its own). The code only
  looks keys up, it never ranges over a map nor takes its length, so a store under NaN
  leaves the map as it is for every lookup.
\<close>

definition mapLoad :: "(float64 \<rightharpoonup> 'a) \<Rightarrow> float64 \<Rightarrow> 'a option" where
  "mapLoad m k = (if k = NaN then None else m k)"

definition mapStore :: "(float64 \<rightharpoonup> 'a) \<Rightarrow> float64 \<Rightarrow> 'a \<Rightarrow> (float64 \<rightharpoonup> 'a)" where
  "mapStore m k v = (if k = NaN then m else m(k \<mapsto> v))"

text \<open>\<^verbatim>\<open>time.Time\<close> and \<^verbatim>\<open>time.Duration\<close>: only stored, never inspected.\<close>

type_synonym time = int
type_synonym duration = int

datatype Status = Ignored | Applied | Pending | Error

record Migration =
  Version :: float64
  Description :: string
  Script :: string

text \<open>
  \<^verbatim>\<open>MigrationRecord\<close> is declared next to the \<^verbatim>\<open>Driver\<close> interface, outside the files at hand.
  Modelled from the spec: its fields are version, description, checksum, applied_at and
  execution_time; the first two are named \<open>RecVersion\<close> and \<open>RecDescription\<close> here
  because a field name belongs to one record type.
\<close>

record MigrationRecord =
  RecVersion :: float64
  RecDescription :: string
  Checksum :: string
  AppliedAt :: time
  ExecutionTime :: duration

text \<open>
  The four structural errors of the source, and \<open>DriverError\<close> for whatever error value
  a driver operation returns.
\<close>

datatype error =
    DuplicateMigrationVersionError float64
  | IllegalMigrationVersionError float64
  | RemovedMigrationError float64
  | InvalidChecksumError float64
  | DriverError string

record MigrationInfo =
  InfoStatus :: Status
  InfoError :: "error option"
  InfoMigration :: Migration

text \<open>A Go call either returns or panics (here: an index or slice bound out of range).\<close>

datatype 'a outcome = Panic | Return 'a

text \<open>
  \<^verbatim>\<open>Migration.Checksum\<close> is the hexadecimal MD5 of the script. \<^verbatim>\<open>crypto/md5\<close> is not
  part of the repository; the digest function is the parameter \<open>md5\<close>.
\<close>

definition MigrationChecksum :: "(string \<Rightarrow> string) \<Rightarrow> Migration \<Rightarrow> string" where
  "MigrationChecksum md5 m = md5 (Script m)"

section \<open>Script parser\<close>

subsection \<open>The library functions the parser calls\<close>

text \<open>
  Go strings are byte sequences, as \<open>string\<close> is here.

  \<^verbatim>\<open>bufio.Scanner\<close> with \<^verbatim>\<open>bufio.ScanLines\<close>: the input is cut at each line feed, a final
  piece without line feed is a line when it is not empty, and one trailing carriage
  return is dropped from each line. The scanner's buffer holds at most 65536 bytes: at a
  line that does not fit, \<^verbatim>\<open>Scan\<close> returns false, and \<^verbatim>\<open>ParseMigrations\<close> (which never
  looks at \<^verbatim>\<open>scanner.Err()\<close>) takes that for the end of the input.
\<close>

fun splitLines :: "string \<Rightarrow> string \<Rightarrow> string list" where
  "splitLines cur [] = (if cur = [] then [] else [cur])"
| "splitLines cur (c # cs) =
     (if c = CHR 0x0A then cur # splitLines [] cs else splitLines (cur @ [c]) cs)"

definition dropCR :: "string \<Rightarrow> string" where
  "dropCR l = (if l \<noteq> [] \<and> last l = CHR 0x0D then butlast l else l)"

definition MaxScanTokenSize :: nat where
  "MaxScanTokenSize = 65536"

definition ScanLines :: "string \<Rightarrow> string list" where
  "ScanLines s = map dropCR (takeWhile (\<lambda>l. length l < MaxScanTokenSize) (splitLines [] s))"

text \<open>
  \<^verbatim>\<open>strings.ToLower\<close>. Bytes below 0x80 are ASCII and are lowered as such. Two runes
  outside ASCII have an ASCII lower case in Go's tables: U+0130 (bytes C4 B0) becomes
  \<open>i\<close> and U+212A (bytes E2 84 AA) becomes \<open>k\<close>. Every other rune outside ASCII is left
  as it is here, where Go maps it to a rune that is again outside ASCII (and an invalid
  byte to U+FFFD): the parser only tests the lowered line against ASCII prefixes, which
  no such byte can match either way.
\<close>

definition lowerByte :: "char \<Rightarrow> char" where
  "lowerByte c =
     (if 65 \<le> (of_char c :: nat) \<and> (of_char c :: nat) \<le> 90
      then char_of ((of_char c :: nat) + 32) else c)"

fun ToLower :: "string \<Rightarrow> string" where
  "ToLower (a # b # c # cs) =
     (if a = CHR 0xE2 \<and> b = CHR 0x84 \<and> c = CHR 0xAA then CHR ''k'' # ToLower cs
      else if a = CHR 0xC4 \<and> b = CHR 0xB0 then CHR ''i'' # ToLower (c # cs)
      else lowerByte a # ToLower (b # c # cs))"
| "ToLower [a, b] =
     (if a = CHR 0xC4 \<and> b = CHR 0xB0 then [CHR ''i''] else [lowerByte a, lowerByte b])"
| "ToLower [a] = [lowerByte a]"
| "ToLower [] = []"

text \<open>\<^verbatim>\<open>strings.Replace(s, " ", "", 1)\<close>: the first space of \<open>s\<close>, if any, is removed.\<close>

fun ReplaceSpace1 :: "string \<Rightarrow> string" where
  "ReplaceSpace1 [] = []"
| "ReplaceSpace1 (c # cs) = (if c = CHR '' '' then cs else c # ReplaceSpace1 cs)"

definition HasPrefix :: "string \<Rightarrow> string \<Rightarrow> bool" where
  "HasPrefix s p = (take (length p) s = p)"

text \<open>
  \<^verbatim>\<open>strings.TrimSpace\<close>, on the ASCII white space (tab, line feed, vertical tab, form
  feed, carriage return, space). Go also trims the Unicode spaces outside ASCII
  (U+0085, U+00A0 and others); they are not trimmed here.
\<close>

definition isSpace :: "char \<Rightarrow> bool" where
  "isSpace c = (c = CHR '' '' \<or> (9 \<le> (of_char c :: nat) \<and> (of_char c :: nat) \<le> 13))"

definition TrimSpace :: "string \<Rightarrow> string" where
  "TrimSpace s = rev (dropWhile isSpace (rev (dropWhile isSpace s)))"

subsection \<open>ParseMigrations\<close>

text \<open>
  The two marker tests of the \<^verbatim>\<open>switch\<close>, and the slice expressions \<^verbatim>\<open>v[11:]\<close> and
  \<^verbatim>\<open>v[15:]\<close>, which panic when the line is shorter than the offset.
\<close>

definition isVersionLine :: "string \<Rightarrow> bool" where
  "isVersionLine v = HasPrefix (ReplaceSpace1 (ToLower v)) ''--version:''"

definition isDescriptionLine :: "string \<Rightarrow> bool" where
  "isDescriptionLine v = HasPrefix (ReplaceSpace1 (ToLower v)) ''--description:''"

definition sliceFrom :: "nat \<Rightarrow> string \<Rightarrow> string outcome" where
  "sliceFrom n v = (if length v < n then Panic else Return (drop n v))"

definition zeroMigration :: Migration where
  "zeroMigration = \<lparr>Version = Num 0, Description = [], Script = []\<rparr>"

text \<open>
  The loop over the scanned lines, with the loop's variables \<open>migrations\<close>, \<open>m\<close> and
  \<open>script\<close> as arguments. \<open>ParseFloat\<close> stands for
  \<^verbatim>\<open>strconv.ParseFloat(_, 64)\<close> (\<open>None\<close>: it returned an error). The result \<open>None\<close> is
  the \<^verbatim>\<open>nil\<close> slice of the error branch; \<open>Some ms\<close> is the slice \<^verbatim>\<open>migrations[1:]\<close>,
  which is never \<^verbatim>\<open>nil\<close>.
\<close>

fun parseLoop ::
  "(string \<Rightarrow> float64 option) \<Rightarrow> string list \<Rightarrow> Migration list \<Rightarrow> Migration \<Rightarrow> string
    \<Rightarrow> Migration list option outcome" where
  "parseLoop ParseFloat [] migrations m script =
     Return (Some (tl (migrations @ [m\<lparr>Script := script\<rparr>])))"
| "parseLoop ParseFloat (v # vs) migrations m script =
     (if isVersionLine v then
        (let migrations' = migrations @ [m\<lparr>Script := script\<rparr>] in
         case sliceFrom 11 v of
           Panic \<Rightarrow> Panic
         | Return payload \<Rightarrow>
             (case ParseFloat (TrimSpace payload) of
                None \<Rightarrow> Return None
              | Some f \<Rightarrow> parseLoop ParseFloat vs migrations' (zeroMigration\<lparr>Version := f\<rparr>) []))
      else if isDescriptionLine v then
        (case sliceFrom 15 v of
           Panic \<Rightarrow> Panic
         | Return d \<Rightarrow> parseLoop ParseFloat vs migrations (m\<lparr>Description := TrimSpace d\<rparr>) script)
      else parseLoop ParseFloat vs migrations m (script @ v @ ''\<newline>''))"

definition ParseMigrations ::
  "(string \<Rightarrow> float64 option) \<Rightarrow> string \<Rightarrow> Migration list option outcome" where
  "ParseMigrations ParseFloat s = parseLoop ParseFloat (ScanLines s) [] zeroMigration []"

text \<open>
  A stand-in for \<^verbatim>\<open>strconv.ParseFloat\<close> on plain decimal literals (an optional sign,
  digits, an optional point, digits; at least one digit), used to run the parser on
  concrete inputs. On such a literal whose value a \<^verbatim>\<open>float64\<close> holds exactly it returns
  what Go returns. It rejects everything else, also the exponents, hexadecimal
  literals, \<^verbatim>\<open>inf\<close> and \<^verbatim>\<open>nan\<close> that Go accepts.
\<close>

definition isDigit :: "char \<Rightarrow> bool" where
  "isDigit c = (48 \<le> (of_char c :: nat) \<and> (of_char c :: nat) \<le> 57)"

definition digitsValue :: "string \<Rightarrow> nat" where
  "digitsValue ds = foldl (\<lambda>n c. 10 * n + ((of_char c :: nat) - 48)) 0 ds"

definition unsignedDecimal :: "string \<Rightarrow> rat option" where
  "unsignedDecimal s =
     (let ip = takeWhile isDigit s; r = dropWhile isDigit s in
      if r = [] then (if ip = [] then None else Some (of_nat (digitsValue ip)))
      else if hd r = CHR ''.'' \<and> list_all isDigit (tl r) \<and> (ip \<noteq> [] \<or> tl r \<noteq> [])
      then Some (of_nat (digitsValue (ip @ tl r)) / 10 ^ length (tl r))
      else None)"

definition decimalLiteral :: "string \<Rightarrow> float64 option" where
  "decimalLiteral s =
     (case s of
        [] \<Rightarrow> None
      | c # cs \<Rightarrow>
          if c = CHR ''-'' then map_option (\<lambda>q. Num (- q)) (unsignedDecimal cs)
          else if c = CHR ''+'' then map_option Num (unsignedDecimal cs)
          else map_option Num (unsignedDecimal s))"

section \<open>Sorting\<close>

text \<open>
  \<^verbatim>\<open>sort.Sort\<close> over an interface whose \<^verbatim>\<open>Less\<close> is \<open>lt\<close>. On a short slice the
  library runs an insertion sort (\<^verbatim>\<open>insertionSort\<close>): for each index \<open>i\<close> in turn, the
  element at \<open>i\<close> is swapped leftwards as long as it is less than its left neighbour.
  \<open>insertionStep\<close> is that inner loop, on the part already treated held in reverse
  (nearest neighbour first), and \<open>sortSort\<close> the outer loop. This is what the library
  does on slices of at most 12 elements since Go 1.19 and of at most 6 elements before;
  on longer slices it uses other algorithms. Where \<open>lt\<close> orders the elements linearly
  (versions without NaN) every such algorithm returns the elements in ascending order,
  and the same slice when no two elements are equal in version. With NaN among the
  versions \<open>lt\<close> is no such order, and how the slice is arranged depends on the
  algorithm: there the model is the library on short slices. What is proved below for
  slices of any length with NaN among the versions (the checks of \<^verbatim>\<open>Validate\<close>, the plan
  against a history that is not empty, the state of the driver) does not depend on how
  the slice is arranged.
\<close>

fun insertionStep :: "('a \<Rightarrow> 'a \<Rightarrow> bool) \<Rightarrow> 'a \<Rightarrow> 'a list \<Rightarrow> 'a list" where
  "insertionStep lt x [] = [x]"
| "insertionStep lt x (y # ys) =
     (if lt x y then y # insertionStep lt x ys else x # y # ys)"

definition sortSort :: "('a \<Rightarrow> 'a \<Rightarrow> bool) \<Rightarrow> 'a list \<Rightarrow> 'a list" where
  "sortSort lt xs = rev (foldl (\<lambda>acc x. insertionStep lt x acc) [] xs)"

text \<open>\<^verbatim>\<open>sort.Reverse\<close>: \<^verbatim>\<open>Less(i, j)\<close> of the result is \<^verbatim>\<open>Less(j, i)\<close> of the argument.\<close>

definition Reverse :: "('a \<Rightarrow> 'a \<Rightarrow> bool) \<Rightarrow> 'a \<Rightarrow> 'a \<Rightarrow> bool" where
  "Reverse lt a b = lt b a"

definition byMigrationVersion :: "Migration \<Rightarrow> Migration \<Rightarrow> bool" where
  "byMigrationVersion a b = float64_less (Version a) (Version b)"

text \<open>
  Modelled from the spec: \<^verbatim>\<open>byMigrationRecordVersion\<close> is declared with the driver, outside
  the files at hand; the records are sorted descending by version through
  \<^verbatim>\<open>sort.Reverse\<close>, so its \<^verbatim>\<open>Less\<close> compares the versions of two records.
\<close>

definition byMigrationRecordVersion :: "MigrationRecord \<Rightarrow> MigrationRecord \<Rightarrow> bool" where
  "byMigrationRecordVersion a b = float64_less (RecVersion a) (RecVersion b)"

section \<open>The driver\<close>

text \<open>
  The \<^verbatim>\<open>Driver\<close> interface is declared outside the files at hand. Modelled from the spec:
  its four operations are create, all, insert and exec. A driver is a record of four
  functions over a state \<open>'s\<close> of the database, each returning its Go results and the
  state after the call. The field for \<^verbatim>\<open>All\<close> is named \<open>AllRecords\<close>.
\<close>

record 's Driver =
  Create :: "'s \<Rightarrow> error option \<times> 's"
  Insert :: "MigrationRecord \<Rightarrow> 's \<Rightarrow> error option \<times> 's"
  AllRecords :: "'s \<Rightarrow> (error + MigrationRecord list) \<times> 's"
  Exec :: "string \<Rightarrow> 's \<Rightarrow> (error + duration) \<times> 's"

section \<open>Validator\<close>

fun isInvalidVersion :: "Migration list \<Rightarrow> float64 \<times> bool" where
  "isInvalidVersion [] = (Num 0, False)"
| "isInvalidVersion (migration # rest) =
     (let version = Version migration in
      if float64_less version (Num 0) then (version, True) else isInvalidVersion rest)"

fun isDuplicatedLoop :: "(float64 \<rightharpoonup> Migration) \<Rightarrow> Migration list \<Rightarrow> float64 \<times> bool" where
  "isDuplicatedLoop unique [] = (Num 0, False)"
| "isDuplicatedLoop unique (migration # rest) =
     (case mapLoad unique (Version migration) of
        Some _ \<Rightarrow> (Version migration, True)
      | None \<Rightarrow> isDuplicatedLoop (mapStore unique (Version migration) migration) rest)"

definition isDuplicated :: "Migration list \<Rightarrow> float64 \<times> bool" where
  "isDuplicated migrations = isDuplicatedLoop Map.empty migrations"

fun wasRemovedLoop :: "(float64 \<rightharpoonup> Migration) \<Rightarrow> MigrationRecord list \<Rightarrow> float64 \<times> bool" where
  "wasRemovedLoop versionMap [] = (Num 0, False)"
| "wasRemovedLoop versionMap (migration # rest) =
     (case mapLoad versionMap (RecVersion migration) of
        None \<Rightarrow> (RecVersion migration, True)
      | Some _ \<Rightarrow> wasRemovedLoop versionMap rest)"

definition wasRemovedMigration :: "MigrationRecord list \<Rightarrow> Migration list \<Rightarrow> float64 \<times> bool" where
  "wasRemovedMigration applied migrations =
     wasRemovedLoop
       (foldl (\<lambda>versionMap migration. mapStore versionMap (Version migration) migration)
          Map.empty migrations)
       applied"

fun isInvalidChecksumLoop ::
  "(string \<Rightarrow> string) \<Rightarrow> (float64 \<rightharpoonup> MigrationRecord) \<Rightarrow> Migration list \<Rightarrow> float64 \<times> bool" where
  "isInvalidChecksumLoop md5 versionMap [] = (Num 0, False)"
| "isInvalidChecksumLoop md5 versionMap (migration # rest) =
     (case mapLoad versionMap (Version migration) of
        Some m \<Rightarrow>
          if Checksum m \<noteq> MigrationChecksum md5 migration then (Version migration, True)
          else isInvalidChecksumLoop md5 versionMap rest
      | None \<Rightarrow> isInvalidChecksumLoop md5 versionMap rest)"

definition isInvalidChecksumMigration ::
  "(string \<Rightarrow> string) \<Rightarrow> MigrationRecord list \<Rightarrow> Migration list \<Rightarrow> float64 \<times> bool" where
  "isInvalidChecksumMigration md5 applied migrations =
     isInvalidChecksumLoop md5
       (foldl (\<lambda>versionMap migration. mapStore versionMap (RecVersion migration) migration)
          Map.empty applied)
       migrations"

text \<open>
  \<^verbatim>\<open>Validate\<close> sorts the caller's slice in place, so the model returns the slice as the
  caller sees it after the call, between the error (\<open>None\<close> is \<^verbatim>\<open>nil\<close>) and the state
  of the driver.
\<close>

definition Validate ::
  "(string \<Rightarrow> string) \<Rightarrow> 's Driver \<Rightarrow> Migration list \<Rightarrow> 's \<Rightarrow> error option \<times> Migration list \<times> 's" where
  "Validate md5 d migrations0 s =
     (let migrations = sortSort byMigrationVersion migrations0 in
      if snd (isInvalidVersion migrations)
      then (Some (IllegalMigrationVersionError (fst (isInvalidVersion migrations))), migrations, s)
      else if snd (isDuplicated migrations)
      then (Some (DuplicateMigrationVersionError (fst (isDuplicated migrations))), migrations, s)
      else
        (case AllRecords d s of
           (Inl err, s') \<Rightarrow> (Some err, migrations, s')
         | (Inr applied, s') \<Rightarrow>
             if snd (wasRemovedMigration applied migrations)
             then (Some (RemovedMigrationError (fst (wasRemovedMigration applied migrations))),
                   migrations, s')
             else if snd (isInvalidChecksumMigration md5 applied migrations)
             then (Some (InvalidChecksumError
                          (fst (isInvalidChecksumMigration md5 applied migrations))),
                   migrations, s')
             else (None, migrations, s')))"

section \<open>Status reporter\<close>

text \<open>\<^verbatim>\<open>inDatabase[0]\<close> panics on an empty slice.\<close>

definition getStatus :: "MigrationRecord list \<Rightarrow> Migration \<Rightarrow> Status outcome" where
  "getStatus inDatabase migration =
     (case inDatabase of
        [] \<Rightarrow> Panic
      | lastRecord # _ \<Rightarrow>
          if float64_less (RecVersion lastRecord) (Version migration) then Return Pending
          else if \<not> foldl (\<lambda>found record.
                       if float64_eq (RecVersion record) (Version migration) then True
                       else found)
                     False inDatabase
          then Return Ignored
          else Return Applied)"

fun infoLoop ::
  "MigrationRecord list \<Rightarrow> Migration list \<Rightarrow> MigrationInfo list \<Rightarrow> MigrationInfo list outcome" where
  "infoLoop records [] info = Return info"
| "infoLoop records (migration # rest) info =
     (case getStatus records migration of
        Panic \<Rightarrow> Panic
      | Return status \<Rightarrow>
          infoLoop records rest
            (info @ [\<lparr>InfoStatus = status, InfoError = None, InfoMigration = migration\<rparr>]))"

definition Info ::
  "'s Driver \<Rightarrow> Migration list \<Rightarrow> 's \<Rightarrow> (MigrationInfo list \<times> error option) outcome \<times> 's" where
  "Info d migrations s =
     (case AllRecords d s of
        (Inl err, s') \<Rightarrow> (Return ([], Some err), s')
      | (Inr records0, s') \<Rightarrow>
          (let records = sortSort (Reverse byMigrationRecordVersion) records0 in
           case infoLoop records migrations [] of
             Panic \<Rightarrow> (Panic, s')
           | Return info \<Rightarrow> (Return (info, None), s')))"

section \<open>Planner\<close>

text \<open>
  \<^verbatim>\<open>records[0]\<close> is read only after the test \<^verbatim>\<open>len(records) == 0\<close> has failed, so it
  is the head of a list that is not empty.
\<close>

definition planMigration ::
  "'s Driver \<Rightarrow> Migration list \<Rightarrow> 's \<Rightarrow> (error + Migration list) \<times> 's" where
  "planMigration d migrations s =
     (case AllRecords d s of
        (Inl err, s') \<Rightarrow> (Inl err, s')
      | (Inr records0, s') \<Rightarrow>
          if length records0 = 0 then (Inr migrations, s')
          else
            (let records = sortSort (Reverse byMigrationRecordVersion) records0;
                 lastRecord = hd records;
                 planned =
                   filter (\<lambda>migration. float64_less (RecVersion lastRecord) (Version migration))
                     migrations
             in (Inr (sortSort byMigrationVersion planned), s')))"

section \<open>Executor\<close>

text \<open>
  The loop of \<^verbatim>\<open>Migrate\<close> over the planned migrations. \<open>now\<close> reads the clock
  (\<^verbatim>\<open>time.Now()\<close>) in the state the call is made in. The process-wide mutex is not
  modelled: one call runs at a time.
\<close>

fun migrateLoop ::
  "(string \<Rightarrow> string) \<Rightarrow> ('s \<Rightarrow> time) \<Rightarrow> 's Driver \<Rightarrow> Migration list \<Rightarrow> 's \<Rightarrow> error option \<times> 's" where
  "migrateLoop md5 now d [] s = (None, s)"
| "migrateLoop md5 now d (migration # rest) s =
     (case Exec d (Script migration) s of
        (Inl err, s1) \<Rightarrow> (Some err, s1)
      | (Inr dur, s1) \<Rightarrow>
          (case Insert d
                  \<lparr>RecVersion = Version migration,
                   RecDescription = Description migration,
                   Checksum = MigrationChecksum md5 migration,
                   AppliedAt = now s1,
                   ExecutionTime = dur\<rparr> s1 of
             (Some err, s2) \<Rightarrow> (Some err, s2)
           | (None, s2) \<Rightarrow> migrateLoop md5 now d rest s2))"

text \<open>
  \<^verbatim>\<open>Migrate\<close> returns its error, the caller's slice as it is after the call (sorted by
  \<^verbatim>\<open>Validate\<close> once \<^verbatim>\<open>Create\<close> has succeeded) and the state of the driver.
\<close>

definition Migrate ::
  "(string \<Rightarrow> string) \<Rightarrow> ('s \<Rightarrow> time) \<Rightarrow> 's Driver \<Rightarrow> Migration list \<Rightarrow> 's
    \<Rightarrow> error option \<times> Migration list \<times> 's" where
  "Migrate md5 now d migrations0 s =
     (case Create d s of
        (Some err, s0) \<Rightarrow> (Some err, migrations0, s0)
      | (None, s0) \<Rightarrow>
          (case Validate md5 d migrations0 s0 of
             (Some err, migrations, s1) \<Rightarrow> (Some err, migrations, s1)
           | (None, migrations, s1) \<Rightarrow>
               (case planMigration d migrations s1 of
                  (Inl err, s2) \<Rightarrow> (Some err, migrations, s2)
                | (Inr planned, s2) \<Rightarrow>
                    (case migrateLoop md5 now d planned s2 of
                       (err, s3) \<Rightarrow> (err, migrations, s3)))))"

section \<open>A driver in memory\<close>

text \<open>
  Modelled from the spec: the driver's implementation is outside the files at hand. The
  spec's contract for a driver: create ensures the bookkeeping table exists and may be
  repeated; all returns every applied record; insert appends one record and fails on a
  version that is already recorded; exec runs a script and reports the time it took.
  The state is the bookkeeping table and the scripts run so far. \<open>failing\<close> says which
  scripts the database rejects, \<open>elapsed\<close> how long a script takes.
\<close>

record memory =
  table :: "MigrationRecord list"
  executed :: "string list"

definition memoryDriver :: "(string \<Rightarrow> bool) \<Rightarrow> (string \<Rightarrow> duration) \<Rightarrow> memory Driver" where
  "memoryDriver failing elapsed =
     \<lparr>Create = (\<lambda>s. (None, s)),
      Insert = (\<lambda>r s.
        if RecVersion r \<in> set (map RecVersion (table s))
        then (Some (DriverError ''duplicate version''), s)
        else (None, s\<lparr>table := table s @ [r]\<rparr>)),
      AllRecords = (\<lambda>s. (Inr (table s), s)),
      Exec = (\<lambda>script s.
        if failing script then (Inl (DriverError ''exec failed''), s)
        else (Inr (elapsed script), s\<lparr>executed := executed s @ [script]\<rparr>))\<rparr>"

text \<open>A clock for the driver in memory: the number of scripts run so far.\<close>

definition memoryNow :: "memory \<Rightarrow> time" where
  "memoryNow s = int (length (executed s))"

section \<open>A driver that logs its calls\<close>

text \<open>
  To say which driver calls a run makes, any driver \<open>d\<close> is wrapped into one that does
  what \<open>d\<close> does and appends each call to a log kept beside the state of \<open>d\<close>.
\<close>

datatype call = CreateCall | AllCall | ExecCall string | InsertCall MigrationRecord

definition traced :: "'s Driver \<Rightarrow> ('s \<times> call list) Driver" where
  "traced d =
     \<lparr>Create = (\<lambda>(s, tr). case Create d s of (r, s') \<Rightarrow> (r, (s', tr @ [CreateCall]))),
      Insert = (\<lambda>rec (s, tr).
        case Insert d rec s of (r, s') \<Rightarrow> (r, (s', tr @ [InsertCall rec]))),
      AllRecords = (\<lambda>(s, tr). case AllRecords d s of (r, s') \<Rightarrow> (r, (s', tr @ [AllCall]))),
      Exec = (\<lambda>script (s, tr).
        case Exec d script s of (r, s') \<Rightarrow> (r, (s', tr @ [ExecCall script])))\<rparr>"

text \<open>The calls of a loop that runs \<open>planned\<close> and inserts \<open>recs\<close>: exec, insert, in turn.\<close>

definition loopCalls :: "Migration list \<Rightarrow> MigrationRecord list \<Rightarrow> call list" where
  "loopCalls planned recs =
     concat (map (\<lambda>(p, r). [ExecCall (Script p), InsertCall r]) (zip planned recs))"

section \<open>Versions without NaN\<close>

text \<open>
  On the versions other than NaN, Go's \<^verbatim>\<open><\<close> is a linear order: \<open>float64_key\<close> embeds
  them into the pairs of a rank and a rational, ordered lexicographically. It is used in
  proofs only.
\<close>

fun float64_key :: "float64 \<Rightarrow> int \<times> rat" where
  "float64_key NegInf = (-1, 0)"
| "float64_key (Num x) = (0, x)"
| "float64_key PosInf = (1, 0)"
| "float64_key NaN = (2, 0)"

section \<open>Properties of the sort\<close>

lemma mset_insertionStep: "mset (insertionStep lt x ys) = add_mset x (mset ys)"
  by (induction ys) auto

lemma mset_foldl_insertionStep:
  "mset (foldl (\<lambda>acc x. insertionStep lt x acc) acc xs) = mset acc + mset xs"
  by (induction xs arbitrary: acc) (auto simp: mset_insertionStep)

lemma mset_sortSort: "mset (sortSort lt xs) = mset xs"
  by (simp add: sortSort_def mset_foldl_insertionStep)

lemma set_sortSort: "set (sortSort lt xs) = set xs"
  using mset_sortSort [of lt xs] by (rule mset_eq_setD)



lemma sortSort_Nil: "sortSort lt [] = []"
  by (simp add: sortSort_def)

lemma set_insertionStep: "set (insertionStep lt x ys) = insert x (set ys)"
  using mset_insertionStep [of lt x ys]
  by (metis mset_eq_setD set_mset_add_mset_insert set_mset_mset)

lemma set_foldl_insertionStep:
  "set (foldl (\<lambda>acc x. insertionStep lt x acc) acc xs) = set acc \<union> set xs"
  using mset_foldl_insertionStep [of lt acc xs]
  by (metis mset_eq_setD set_mset_mset set_mset_union)

text \<open>The sort looks at \<open>lt\<close> on the elements of the slice only.\<close>

lemma insertionStep_cong:
  "\<forall>y \<in> set ys. lt x y = lt' x y \<Longrightarrow> insertionStep lt x ys = insertionStep lt' x ys"
  by (induction ys) auto

lemma foldl_insertionStep_cong:
  "\<forall>a \<in> set acc \<union> set xs. \<forall>b \<in> set acc \<union> set xs. lt a b = lt' a b \<Longrightarrow>
     foldl (\<lambda>acc x. insertionStep lt x acc) acc xs =
     foldl (\<lambda>acc x. insertionStep lt' x acc) acc xs"
proof (induction xs arbitrary: acc)
  case Nil
  show ?case by simp
next
  case (Cons x xs)
  have 1: "insertionStep lt x acc = insertionStep lt' x acc"
    using Cons.prems by (intro insertionStep_cong) auto
  have "\<forall>a \<in> set (insertionStep lt' x acc) \<union> set xs.
        \<forall>b \<in> set (insertionStep lt' x acc) \<union> set xs. lt a b = lt' a b"
    using Cons.prems by (auto simp: set_insertionStep)
  from Cons.IH [OF this] show ?case by (simp add: 1)
qed

lemma sortSort_cong:
  "\<forall>a \<in> set xs. \<forall>b \<in> set xs. lt a b = lt' a b \<Longrightarrow> sortSort lt xs = sortSort lt' xs"
  using foldl_insertionStep_cong [of "[]" xs lt lt'] by (simp add: sortSort_def)

text \<open>Under a linear order given by a key, the result is ascending.\<close>

lemma sorted_insertionStep:
  fixes key :: "'a \<Rightarrow> 'b::linorder"
  shows "sorted (map key (rev acc)) \<Longrightarrow>
    sorted (map key (rev (insertionStep (\<lambda>a b. key a < key b) x acc)))"
proof (induction acc)
  case Nil
  show ?case by simp
next
  case (Cons y ys)
  from Cons.prems have s: "sorted (map key (rev ys))" and le: "\<forall>z \<in> set ys. key z \<le> key y"
    by (auto simp: sorted_append)
  show ?case
  proof (cases "key x < key y")
    case True
    have "\<forall>z \<in> set (insertionStep (\<lambda>a b. key a < key b) x ys). key z \<le> key y"
      using le True by (auto simp: set_insertionStep)
    then show ?thesis using True Cons.IH [OF s] by (auto simp: sorted_append)
  next
    case False
    then show ?thesis using Cons.prems le by (auto simp: sorted_append)
  qed
qed

lemma sorted_foldl_insertionStep:
  fixes key :: "'a \<Rightarrow> 'b::linorder"
  shows "sorted (map key (rev acc)) \<Longrightarrow>
    sorted (map key (rev (foldl (\<lambda>acc x. insertionStep (\<lambda>a b. key a < key b) x acc) acc xs)))"
  by (induction xs arbitrary: acc) (auto simp: sorted_insertionStep)

lemma sorted_sortSort:
  fixes key :: "'a \<Rightarrow> 'b::linorder"
  shows "sorted (map key (sortSort (\<lambda>a b. key a < key b) xs))"
  using sorted_foldl_insertionStep [of key "[]" xs] by (simp add: sortSort_def)

lemma sortSort_snoc:
  "sortSort lt (xs @ [x]) = rev (insertionStep lt x (rev (sortSort lt xs)))"
  by (simp add: sortSort_def)

lemma insertionStep_stay: "\<forall>y \<in> set ys. \<not> lt x y \<Longrightarrow> insertionStep lt x ys = x # ys"
  by (cases ys) auto

lemma sortSort_sorted_id:
  fixes key :: "'a \<Rightarrow> 'b::linorder"
  shows "sorted (map key xs) \<Longrightarrow> sortSort (\<lambda>a b. key a < key b) xs = xs"
proof (induction xs rule: rev_induct)
  case Nil
  show ?case by (simp add: sortSort_def)
next
  case (snoc x xs)
  from snoc.prems have s: "sorted (map key xs)" and le: "\<forall>y \<in> set xs. key y \<le> key x"
    by (auto simp: sorted_append)
  from le have "\<forall>y \<in> set (rev xs). \<not> key x < key y" by auto
  with snoc.IH [OF s] show ?case
    by (simp add: sortSort_snoc insertionStep_stay)
qed

text \<open>Versions without NaN are ordered by their keys.\<close>

lemma float64_less_key:
  "a \<noteq> NaN \<Longrightarrow> b \<noteq> NaN \<Longrightarrow> float64_less a b = (float64_key a < float64_key b)"
  by (cases a; cases b) auto


lemma float64_less_NaN [simp]: "\<not> float64_less a NaN" "\<not> float64_less NaN a"
  by (cases a; simp)+

lemma float64_less_irrefl: "\<not> float64_less a a"
  by (cases a) auto

lemma sortSort_byMigrationVersion_key:
  assumes "NaN \<notin> Version ` set ms"
  shows "sortSort byMigrationVersion ms =
         sortSort (\<lambda>a b. float64_key (Version a) < float64_key (Version b)) ms"
proof (rule sortSort_cong, intro ballI)
  fix a b assume "a \<in> set ms" "b \<in> set ms"
  then have "Version a \<noteq> NaN" "Version b \<noteq> NaN" using assms by force+
  then show "byMigrationVersion a b = (float64_key (Version a) < float64_key (Version b))"
    by (simp add: byMigrationVersion_def float64_less_key)
qed

lemma sorted_sortSort_byMigrationVersion:
  assumes "NaN \<notin> Version ` set ms"
  shows "sorted (map (\<lambda>m. float64_key (Version m)) (sortSort byMigrationVersion ms))"
  unfolding sortSort_byMigrationVersion_key [OF assms] by (rule sorted_sortSort)

text \<open>
  Ascending, in the words of the code: no element is less than an earlier one; and
  strictly ascending when the versions are distinct.
\<close>

lemma ascending_sortSort:
  assumes "NaN \<notin> Version ` set ms"
  shows "sorted_wrt (\<lambda>a b. \<not> float64_less (Version b) (Version a))
           (sortSort byMigrationVersion ms)"
proof -
  let ?s = "sortSort byMigrationVersion ms"
  have nn: "\<forall>m \<in> set ?s. Version m \<noteq> NaN" using assms by (force simp: set_sortSort)
  have "sorted_wrt (\<lambda>a b. float64_key (Version a) \<le> float64_key (Version b)) ?s"
    using sorted_sortSort_byMigrationVersion [OF assms] by (simp add: sorted_map)
  then show ?thesis
    by (rule sorted_wrt_mono_rel [rotated]) (use nn in \<open>auto simp: float64_less_key\<close>)
qed


lemma sortSort_byMigrationVersion_id:
  assumes "NaN \<notin> Version ` set ms"
  shows "sortSort byMigrationVersion (sortSort byMigrationVersion ms) =
         sortSort byMigrationVersion ms"
proof -
  let ?s = "sortSort byMigrationVersion ms"
  have nn: "NaN \<notin> Version ` set ?s" using assms by (simp add: set_sortSort)
  show ?thesis
    unfolding sortSort_byMigrationVersion_key [OF nn]
    by (rule sortSort_sorted_id) (rule sorted_sortSort_byMigrationVersion [OF assms])
qed


section \<open>Status reporter on an empty history\<close>

text \<open>
  Claim C1 asks that \<^verbatim>\<open>Info\<close>, on a history without records, succeeds and reports
  \<open>Pending\<close> for every migration of a list that is not empty. The code has no such
  case: \<^verbatim>\<open>getStatus\<close> reads \<^verbatim>\<open>inDatabase[0]\<close> before anything else, so on an empty
  history \<^verbatim>\<open>Info\<close> panics at the first migration, whatever the driver and the list.
  (\<^verbatim>\<open>planMigration\<close> does test \<^verbatim>\<open>len(records) == 0\<close> before it reads \<^verbatim>\<open>records[0]\<close>.)
\<close>

theorem Info_empty_history_panics:
  assumes "AllRecords d s = (Inr [], s')" and "migrations \<noteq> []"
  shows "Info d migrations s = (Panic, s')"
proof -
  obtain m ms where "migrations = m # ms"
    using assms(2) by (cases migrations) auto
  then show ?thesis
    using assms(1) by (simp add: Info_def sortSort_Nil getStatus_def)
qed

theorem Info_empty_history_panics_witness:
  "Info (memoryDriver (\<lambda>x. False) (\<lambda>x. 0))
     [\<lparr>Version = Num 1, Description = ''create users'', Script = ''CREATE TABLE users;''\<rparr>]
     \<lparr>table = [], executed = []\<rparr>
   = (Panic, \<lparr>table = [], executed = []\<rparr>)"
  using Info_empty_history_panics
    [of "memoryDriver (\<lambda>x. False) (\<lambda>x. 0)" "\<lparr>table = [], executed = []\<rparr>"
        "\<lparr>table = [], executed = []\<rparr>"
        "[\<lparr>Version = Num 1, Description = ''create users'', Script = ''CREATE TABLE users;''\<rparr>]"]
  by (simp add: memoryDriver_def)

section \<open>The parser on concrete inputs\<close>

lemmas parser_defs =
  ParseMigrations_def ScanLines_def MaxScanTokenSize_def dropCR_def isVersionLine_def
  isDescriptionLine_def HasPrefix_def lowerByte_def sliceFrom_def TrimSpace_def isSpace_def
  zeroMigration_def char_of_eq_iff

lemmas decimalLiteral_defs =
  decimalLiteral_def unsignedDecimal_def isDigit_def digitsValue_def

text \<open>
  Claim C9 is about totality of \<^verbatim>\<open>ParseMigrations\<close>. The parser is not total: a line
  that is exactly \<^verbatim>\<open>--version:\<close> (10 bytes) passes the version test and \<^verbatim>\<open>v[11:]\<close>
  panics; a line that is exactly \<^verbatim>\<open>--description:\<close> (14 bytes) passes the description
  test and \<^verbatim>\<open>v[15:]\<close> panics, also after a well-formed version line. This holds
  whatever \<^verbatim>\<open>ParseFloat\<close> does.
\<close>

theorem ParseMigrations_short_marker_panics:
  "ParseMigrations ParseFloat ''--version:'' = Panic \<and>
   ParseMigrations ParseFloat ''--description:'' = Panic \<and>
   ParseMigrations ParseFloat ''-- Version: 1.0\<newline>--Description:\<newline>SELECT 1;'' =
     (case ParseFloat ''1.0'' of None \<Rightarrow> Return None | Some f \<Rightarrow> Panic)"
  by (simp add: parser_defs split: option.split)

text \<open>
  The bound is the offset of the slice, not one more: a marker line of 11 bytes is
  sliced to the empty payload and does not panic.
\<close>

lemma ParseMigrations_marker_of_11_bytes:
  "ParseMigrations ParseFloat ''-- version:'' =
     (case ParseFloat [] of
        None \<Rightarrow> Return None
      | Some f \<Rightarrow> Return (Some [\<lparr>Version = f, Description = [], Script = []\<rparr>]))"
  by (simp add: parser_defs split: option.split)

text \<open>
  Claim C3 asks that the marker without space, the markers with one space and the literal
  form \<^verbatim>\<open>-- Version: 1.0\<close> all yield the version written on the line. All of them pass
  the version test, but the payload is always cut at byte 11. With one space before the
  colon, or a space right after it, byte 11 is where the number starts (or a space that
  is trimmed). Without any space the marker has 10 bytes, and the first byte of the
  number is cut off with it: of \<^verbatim>\<open>--version:1.0\<close>, \<^verbatim>\<open>ParseFloat\<close> receives \<^verbatim>\<open>.0\<close>.
\<close>

theorem ParseMigrations_version_offset:
  "ParseMigrations ParseFloat ''--version:1.0'' =
     (case ParseFloat ''.0'' of
        None \<Rightarrow> Return None
      | Some f \<Rightarrow> Return (Some [\<lparr>Version = f, Description = [], Script = []\<rparr>])) \<and>
   ParseMigrations ParseFloat ''-- Version: 1.0'' =
     (case ParseFloat ''1.0'' of
        None \<Rightarrow> Return None
      | Some f \<Rightarrow> Return (Some [\<lparr>Version = f, Description = [], Script = []\<rparr>])) \<and>
   ParseMigrations ParseFloat ''--version: 1.0'' = ParseMigrations ParseFloat ''-- Version: 1.0'' \<and>
   ParseMigrations ParseFloat ''-- version:1.0'' = ParseMigrations ParseFloat ''-- Version: 1.0''"
  by (simp add: parser_defs split: option.split)

text \<open>The same inputs with decimal literals read as Go reads them: version 0, not 1.\<close>

lemma ParseMigrations_version_offset_decimal:
  "ParseMigrations decimalLiteral ''--version:1.0'' =
     Return (Some [\<lparr>Version = Num 0, Description = [], Script = []\<rparr>]) \<and>
   ParseMigrations decimalLiteral ''-- Version: 1.0'' =
     Return (Some [\<lparr>Version = Num 1, Description = [], Script = []\<rparr>]) \<and>
   ParseMigrations decimalLiteral ''--version:12'' =
     Return (Some [\<lparr>Version = Num 2, Description = [], Script = []\<rparr>])"
  by (simp add: parser_defs decimalLiteral_defs)

section \<open>Preamble, empty input and parse failures\<close>

text \<open>
  Claim C8 says that \<^verbatim>\<open>ParseMigrations\<close> discards any text before the first version
  marker, and that a version line with a payload that is not a number makes the whole
  call return nothing. The fixed offsets of the slices break both. A line
  \<^verbatim>\<open>--description:\<close> before the first version marker is not discarded: the call
  panics. A line \<^verbatim>\<open>--version:x1\<close> has the payload \<^verbatim>\<open>x1\<close>, which is not a number, but
  \<^verbatim>\<open>ParseFloat\<close> receives \<^verbatim>\<open>1\<close> and the call returns a migration. A line
  \<^verbatim>\<open>--version:\<close>, with no payload at all, panics after a well-formed migration.
\<close>

theorem ParseMigrations_preamble_and_payload:
  "ParseMigrations ParseFloat ''--description:\<newline>-- Version: 1.0\<newline>SELECT 1;'' = Panic \<and>
   ParseMigrations ParseFloat ''--version:x1'' =
     (case ParseFloat ''1'' of
        None \<Rightarrow> Return None
      | Some f \<Rightarrow> Return (Some [\<lparr>Version = f, Description = [], Script = []\<rparr>])) \<and>
   ParseMigrations ParseFloat ''-- Version: 1.0\<newline>SELECT 1;\<newline>--version:'' =
     (case ParseFloat ''1.0'' of None \<Rightarrow> Return None | Some f \<Rightarrow> Panic)"
  by (simp add: parser_defs split: option.split)

text \<open>With decimal literals read as Go reads them, the second input yields version 1.\<close>

lemma ParseMigrations_payload_decimal:
  "ParseMigrations decimalLiteral ''--version:x1'' =
     Return (Some [\<lparr>Version = Num 1, Description = [], Script = []\<rparr>]) \<and>
   decimalLiteral ''x1'' = None"
  by (simp add: parser_defs decimalLiteral_defs)

text \<open>
  What does hold. The empty input gives the empty slice (not \<^verbatim>\<open>nil\<close>).
\<close>

lemma ParseMigrations_empty: "ParseMigrations ParseFloat [] = Return (Some [])"
  by (simp add: ParseMigrations_def ScanLines_def)

text \<open>
  All or nothing: when the lines before a version line parse on their own, and
  \<^verbatim>\<open>ParseFloat\<close> rejects what the slice \<^verbatim>\<open>v[11:]\<close> leaves of that line, the call returns
  \<^verbatim>\<open>nil\<close>, whatever was parsed before and whatever follows.
\<close>

lemma parseLoop_failure:
  assumes "isVersionLine v" and "11 \<le> length v" and "ParseFloat (TrimSpace (drop 11 v)) = None"
  shows "parseLoop ParseFloat before migrations m script = Return (Some res) \<Longrightarrow>
         parseLoop ParseFloat (before @ v # rest) migrations m script = Return None"
proof (induction before arbitrary: migrations m script)
  case Nil
  show ?case using assms by (simp add: sliceFrom_def)
next
  case (Cons x before)
  then show ?case
    by (auto simp: Let_def split: if_splits outcome.splits option.splits)
qed

lemma ParseMigrations_failure:
  assumes "ScanLines s = before @ v # rest"
    and "parseLoop ParseFloat before [] zeroMigration [] = Return (Some res)"
    and "isVersionLine v" and "11 \<le> length v"
    and "ParseFloat (TrimSpace (drop 11 v)) = None"
  shows "ParseMigrations ParseFloat s = Return None"
  using parseLoop_failure [OF assms(3,4,5) assms(2)] assms(1)
  by (simp add: ParseMigrations_def)

text \<open>
  The preamble: lines before the first version marker are discarded, provided none of
  them is a description marker shorter than the offset 15 (and none exceeds the
  scanner's buffer).
\<close>

lemma parseLoop_first_irrelevant:
  "parseLoop ParseFloat vs (x # ms) m script = parseLoop ParseFloat vs (y # ms) m script"
  by (induction vs arbitrary: ms m script)
    (auto simp: Let_def split: outcome.splits option.splits)

lemma parseLoop_start_irrelevant:
  "parseLoop ParseFloat vs [] m script = parseLoop ParseFloat vs [] m' script'"
proof (induction vs arbitrary: m script m' script')
  case Nil
  show ?case by simp
next
  case (Cons v vs)
  show ?case
  proof (cases "isVersionLine v")
    case True
    then show ?thesis
      using parseLoop_first_irrelevant
        [of ParseFloat vs "m\<lparr>Script := script\<rparr>" "[]" _ "[]" "m'\<lparr>Script := script'\<rparr>"]
      by (auto simp: Let_def split: outcome.splits option.splits)
  next
    case False
    then show ?thesis
      using Cons.IH by (auto simp: Let_def split: outcome.splits option.splits)
  qed
qed

lemma parseLoop_preamble:
  assumes "\<forall>l \<in> set pre. \<not> isVersionLine l \<and> (isDescriptionLine l \<longrightarrow> 15 \<le> length l)"
  shows "parseLoop ParseFloat (pre @ rest) [] m script =
         parseLoop ParseFloat rest [] zeroMigration []"
  using assms
proof (induction pre arbitrary: m script)
  case Nil
  show ?case by (simp add: parseLoop_start_irrelevant [of ParseFloat rest m script zeroMigration "[]"])
next
  case (Cons l pre)
  then show ?case by (auto simp: sliceFrom_def)
qed

lemma splitLines_append:
  "a \<noteq> [] \<Longrightarrow> last a = CHR 0x0A \<Longrightarrow>
     splitLines cur (a @ b) = splitLines cur a @ splitLines [] b"
proof (induction a arbitrary: cur)
  case Nil
  then show ?case by simp
next
  case (Cons c a)
  show ?case
  proof (cases "a = []")
    case True
    then show ?thesis using Cons.prems by simp
  next
    case False
    then have "last a = CHR 0x0A" using Cons.prems by simp
    from Cons.IH [OF False this] show ?thesis by simp
  qed
qed

lemma ParseMigrations_preamble:
  assumes "junk = [] \<or> last junk = CHR 0x0A"
    and "\<forall>l \<in> set (splitLines [] junk). length l < MaxScanTokenSize \<and>
           \<not> isVersionLine (dropCR l) \<and>
           (isDescriptionLine (dropCR l) \<longrightarrow> 15 \<le> length (dropCR l))"
  shows "ParseMigrations ParseFloat (junk @ text) = ParseMigrations ParseFloat text"
proof (cases "junk = []")
  case True
  then show ?thesis by simp
next
  case False
  then have sp: "splitLines [] (junk @ text) = splitLines [] junk @ splitLines [] text"
    using assms(1) by (simp add: splitLines_append)
  have tw: "takeWhile (\<lambda>l. length l < MaxScanTokenSize) (splitLines [] junk @ splitLines [] text) =
      splitLines [] junk @ takeWhile (\<lambda>l. length l < MaxScanTokenSize) (splitLines [] text)"
    using assms(2) by (simp add: takeWhile_append2)
  have sc: "ScanLines (junk @ text) = map dropCR (splitLines [] junk) @ ScanLines text"
    by (simp add: ScanLines_def sp tw)
  have "\<forall>l \<in> set (map dropCR (splitLines [] junk)).
      \<not> isVersionLine l \<and> (isDescriptionLine l \<longrightarrow> 15 \<le> length l)"
    using assms(2) by auto
  from parseLoop_preamble [OF this] show ?thesis
    by (simp add: ParseMigrations_def sc)
qed

section \<open>A script that fails during Migrate\<close>

lemma migrateLoop_stops:
  assumes "migrateLoop md5 now d pre s = (None, s1)"
    and "fst (Exec d (Script m) s1) = Inl e"
  shows "migrateLoop md5 now d (pre @ m # post) s = (Some e, snd (Exec d (Script m) s1))"
  using assms
proof (induction pre arbitrary: s)
  case Nil
  then show ?case by (cases "Exec d (Script m) s1") auto
next
  case (Cons p pre)
  then show ?case
    by (auto split: prod.splits sum.splits option.splits)
qed

lemma traced_Exec:
  "Exec (traced d) script (s, tr) =
     (fst (Exec d script s), (snd (Exec d script s), tr @ [ExecCall script]))"
  by (simp add: traced_def split: prod.split)

lemma traced_Insert:
  "Insert (traced d) r (s, tr) =
     (fst (Insert d r s), (snd (Insert d r s), tr @ [InsertCall r]))"
  by (simp add: traced_def split: prod.split)

lemma traced_AllRecords:
  "AllRecords (traced d) (s, tr) =
     (fst (AllRecords d s), (snd (AllRecords d s), tr @ [AllCall]))"
  by (simp add: traced_def split: prod.split)

lemma traced_Create:
  "Create (traced d) (s, tr) = (fst (Create d s), (snd (Create d s), tr @ [CreateCall]))"
  by (simp add: traced_def split: prod.split)

lemma traced_loop_log:
  "migrateLoop md5 now (traced d) pre (s, tr) = (None, S) \<Longrightarrow>
     \<exists>recs. map RecVersion recs = map Version pre \<and> snd S = tr @ loopCalls pre recs"
proof (induction pre arbitrary: s tr)
  case Nil
  then show ?case by (auto simp: loopCalls_def)
next
  case (Cons p pre)
  obtain dur where ex: "fst (Exec d (Script p) s) = Inr dur"
    using Cons.prems by (cases "fst (Exec d (Script p) s)") (auto simp: traced_Exec)
  let ?s1 = "snd (Exec d (Script p) s)"
  let ?r = "\<lparr>RecVersion = Version p, RecDescription = Description p,
             Checksum = MigrationChecksum md5 p,
             AppliedAt = now (?s1, tr @ [ExecCall (Script p)]), ExecutionTime = dur\<rparr>"
  have ins: "fst (Insert d ?r ?s1) = None"
    using Cons.prems ex
    by (cases "fst (Insert d ?r ?s1)") (auto simp: traced_Exec traced_Insert)
  have rest: "migrateLoop md5 now (traced d) pre
      (snd (Insert d ?r ?s1), tr @ [ExecCall (Script p)] @ [InsertCall ?r]) = (None, S)"
    using Cons.prems ex ins by (simp add: traced_Exec traced_Insert)
  from Cons.IH [OF rest] obtain recs where
    r: "map RecVersion recs = map Version pre"
      "snd S = (tr @ [ExecCall (Script p)] @ [InsertCall ?r]) @ loopCalls pre recs"
    by blast
  have "map RecVersion (?r # recs) = map Version (p # pre)" using r(1) by simp
  moreover have "snd S = tr @ loopCalls (p # pre) (?r # recs)"
    using r(2) by (simp add: loopCalls_def)
  ultimately show ?case by blast
qed

lemma traced_Validate_log:
  "Validate md5 (traced d) migrations (s, tr) = (None, ms, S) \<Longrightarrow> snd S = tr @ [AllCall]"
  by (auto simp: Validate_def Let_def traced_AllRecords split: if_splits sum.splits)

lemma traced_plan_log:
  "planMigration (traced d) ms (s, tr) = (r, S) \<Longrightarrow> snd S = tr @ [AllCall]"
  by (auto simp: planMigration_def Let_def traced_AllRecords split: if_splits sum.splits)

text \<open>
  Claim C4, for any driver, with its calls logged. Let \<^verbatim>\<open>Create\<close>, \<^verbatim>\<open>Validate\<close> and
  \<^verbatim>\<open>planMigration\<close> succeed, let the plan be \<open>pre @ m # post\<close>, let the loop run
  \<open>pre\<close> without error, and let the script of \<open>m\<close> (the N-th planned migration) fail
  with \<open>e\<close>. Then \<^verbatim>\<open>Migrate\<close> returns \<open>e\<close>, and the calls it has made are: create, the
  two fetches of the history, for each migration of \<open>pre\<close> in turn its exec and the
  insert of a record with its version, and last the exec of the script of \<open>m\<close>. So the
  records of migrations 1..N-1 were inserted and nothing was done to them afterwards,
  no record was inserted for \<open>m\<close>, and no migration of \<open>post\<close> was run or recorded.
\<close>

theorem Migrate_stops_at_failed_script:
  assumes "Create (traced d) (s, []) = (None, S0)"
    and "Validate md5 (traced d) migrations S0 = (None, ms, S1)"
    and "planMigration (traced d) ms S1 = (Inr (pre @ m # post), S2)"
    and "migrateLoop md5 now (traced d) pre S2 = (None, S3)"
    and "fst (Exec (traced d) (Script m) S3) = Inl e"
  shows "\<exists>recs S4. Migrate md5 now (traced d) migrations (s, []) = (Some e, ms, S4) \<and>
           map RecVersion recs = map Version pre \<and>
           snd S4 = [CreateCall, AllCall, AllCall] @ loopCalls pre recs @ [ExecCall (Script m)]"
proof -
  let ?S4 = "snd (Exec (traced d) (Script m) S3)"
  have loop: "migrateLoop md5 now (traced d) (pre @ m # post) S2 = (Some e, ?S4)"
    using assms(4,5) by (rule migrateLoop_stops)
  have mig: "Migrate md5 now (traced d) migrations (s, []) = (Some e, ms, ?S4)"
    using assms(1,2,3) loop by (simp add: Migrate_def)
  obtain s0 where S0: "S0 = (s0, [CreateCall])"
    using assms(1) by (cases S0) (auto simp: traced_Create)
  obtain s1 where S1: "S1 = (s1, [CreateCall, AllCall])"
    using traced_Validate_log [of md5 d migrations s0 "[CreateCall]" ms S1] assms(2)
    by (cases S1) (auto simp: S0)
  obtain s2 where S2: "S2 = (s2, [CreateCall, AllCall, AllCall])"
    using traced_plan_log [of d ms s1 "[CreateCall, AllCall]" "Inr (pre @ m # post)" S2]
      assms(3)
    by (cases S2) (auto simp: S1)
  obtain recs where r: "map RecVersion recs = map Version pre"
    "snd S3 = [CreateCall, AllCall, AllCall] @ loopCalls pre recs"
    using traced_loop_log [of md5 now d pre s2 "[CreateCall, AllCall, AllCall]" S3] assms(4)
    by (auto simp: S2)
  obtain s3 where S3: "S3 = (s3, [CreateCall, AllCall, AllCall] @ loopCalls pre recs)"
    using r(2) by (cases S3) auto
  have "snd ?S4 = [CreateCall, AllCall, AllCall] @ loopCalls pre recs @ [ExecCall (Script m)]"
    by (simp add: S3 traced_Exec)
  then show ?thesis using mig r(1) by blast
qed

theorem Migrate_stops_at_failed_script_witness:
  "Migrate id (\<lambda>S. memoryNow (fst S)) (traced (memoryDriver (\<lambda>x. x = ''s2'') (\<lambda>x. 5)))
     [\<lparr>Version = Num 1, Description = ''a'', Script = ''s1''\<rparr>,
      \<lparr>Version = Num 2, Description = ''b'', Script = ''s2''\<rparr>,
      \<lparr>Version = Num 3, Description = ''c'', Script = ''s3''\<rparr>]
     (\<lparr>table = [], executed = []\<rparr>, []) =
   (Some (DriverError ''exec failed''),
    [\<lparr>Version = Num 1, Description = ''a'', Script = ''s1''\<rparr>,
     \<lparr>Version = Num 2, Description = ''b'', Script = ''s2''\<rparr>,
     \<lparr>Version = Num 3, Description = ''c'', Script = ''s3''\<rparr>],
    (\<lparr>table = [\<lparr>RecVersion = Num 1, RecDescription = ''a'', Checksum = ''s1'', AppliedAt = 1,
                 ExecutionTime = 5\<rparr>],
      executed = [''s1'']\<rparr>,
     [CreateCall, AllCall, AllCall, ExecCall ''s1'',
      InsertCall \<lparr>RecVersion = Num 1, RecDescription = ''a'', Checksum = ''s1'', AppliedAt = 1,
                  ExecutionTime = 5\<rparr>,
      ExecCall ''s2'']))"
proof -
  let ?d = "traced (memoryDriver (\<lambda>x. x = ''s2'') (\<lambda>x. 5))"
  let ?now = "\<lambda>S. memoryNow (fst S)"
  let ?m1 = "\<lparr>Version = Num 1, Description = ''a'', Script = ''s1''\<rparr>"
  let ?m2 = "\<lparr>Version = Num 2, Description = ''b'', Script = ''s2''\<rparr>"
  let ?m3 = "\<lparr>Version = Num 3, Description = ''c'', Script = ''s3''\<rparr>"
  let ?s = "\<lparr>table = [], executed = []\<rparr>"
  let ?r1 = "\<lparr>RecVersion = Num 1, RecDescription = ''a'', Checksum = ''s1'', AppliedAt = 1,
              ExecutionTime = 5\<rparr>"
  let ?s3 = "\<lparr>table = [?r1], executed = [''s1'']\<rparr>"
  have a: "Create ?d (?s, []) = (None, (?s, [CreateCall]))"
    by (simp add: traced_def memoryDriver_def)
  have b: "Validate id ?d [?m1, ?m2, ?m3] (?s, [CreateCall]) =
      (None, [?m1, ?m2, ?m3], (?s, [CreateCall, AllCall]))"
    by (simp add: Validate_def traced_def memoryDriver_def sortSort_def byMigrationVersion_def
        isDuplicated_def mapLoad_def mapStore_def wasRemovedMigration_def
        isInvalidChecksumMigration_def)
  have c: "planMigration ?d [?m1, ?m2, ?m3] (?s, [CreateCall, AllCall]) =
      (Inr ([?m1] @ ?m2 # [?m3]), (?s, [CreateCall, AllCall, AllCall]))"
    by (simp add: planMigration_def traced_def memoryDriver_def)
  have d: "migrateLoop id ?now ?d [?m1] (?s, [CreateCall, AllCall, AllCall]) =
      (None, (?s3, [CreateCall, AllCall, AllCall, ExecCall ''s1'', InsertCall ?r1]))"
    by (simp add: traced_def memoryDriver_def memoryNow_def MigrationChecksum_def)
  have e: "fst (Exec ?d (Script ?m2)
      (?s3, [CreateCall, AllCall, AllCall, ExecCall ''s1'', InsertCall ?r1])) =
      Inl (DriverError ''exec failed'')"
    by (simp add: traced_def memoryDriver_def)
  from Migrate_stops_at_failed_script [OF a b c d e]
  show ?thesis
    by (simp add: Migrate_def Validate_def planMigration_def traced_def memoryDriver_def
        memoryNow_def sortSort_def byMigrationVersion_def isDuplicated_def mapLoad_def mapStore_def
        wasRemovedMigration_def isInvalidChecksumMigration_def MigrationChecksum_def)
qed

text \<open>
  The logging driver changes nothing else: a run of \<^verbatim>\<open>Migrate\<close> over \<open>traced d\<close> returns
  what the run over \<open>d\<close> returns, and leaves \<open>d\<close> in the same state.
\<close>

lemma traced_Validate:
  "Validate md5 (traced d) migrations (s, tr) = (e, ms, S) \<Longrightarrow>
     Validate md5 d migrations s = (e, ms, fst S)"
  by (cases "AllRecords d s")
    (auto simp: Validate_def Let_def traced_AllRecords split: if_splits sum.splits)

lemma traced_planMigration:
  "planMigration (traced d) ms (s, tr) = (r, S) \<Longrightarrow> planMigration d ms s = (r, fst S)"
  by (cases "AllRecords d s")
    (auto simp: planMigration_def Let_def traced_AllRecords split: if_splits sum.splits)

lemma traced_migrateLoop:
  "migrateLoop md5 (\<lambda>S. now (fst S)) (traced d) planned (s, tr) = (e, S) \<Longrightarrow>
     migrateLoop md5 now d planned s = (e, fst S)"
proof (induction planned arbitrary: s tr)
  case Nil
  then show ?case by auto
next
  case (Cons p planned)
  show ?case
  proof (cases "Exec d (Script p) s")
    case (Pair r s1)
    show ?thesis
    proof (cases r)
      case (Inl err)
      then show ?thesis using Cons.prems Pair by (auto simp: traced_Exec)
    next
      case (Inr dur)
      let ?r = "\<lparr>RecVersion = Version p, RecDescription = Description p,
                 Checksum = MigrationChecksum md5 p, AppliedAt = now s1,
                 ExecutionTime = dur\<rparr>"
      show ?thesis
      proof (cases "Insert d ?r s1")
        case ins: (Pair ie s2)
        show ?thesis
        proof (cases ie)
          case None
          then have "migrateLoop md5 (\<lambda>S. now (fst S)) (traced d) planned
              (s2, tr @ [ExecCall (Script p)] @ [InsertCall ?r]) = (e, S)"
            using Cons.prems Pair Inr ins by (simp add: traced_Exec traced_Insert)
          from Cons.IH [OF this] show ?thesis using Pair Inr ins None by simp
        next
          case (Some err)
          then show ?thesis
            using Cons.prems Pair Inr ins by (auto simp: traced_Exec traced_Insert)
        qed
      qed
    qed
  qed
qed

lemma traced_Migrate:
  assumes "Migrate md5 (\<lambda>S. now (fst S)) (traced d) migrations (s, tr) = (e, ms, S)"
  shows "Migrate md5 now d migrations s = (e, ms, fst S)"
proof (cases "Create d s")
  case (Pair ce s0)
  show ?thesis
  proof (cases ce)
    case (Some err)
    then show ?thesis using assms Pair by (auto simp: Migrate_def traced_Create)
  next
    case None
    obtain ve vms VS where v: "Validate md5 (traced d) migrations (s0, tr @ [CreateCall]) =
        (ve, vms, VS)"
      by (cases "Validate md5 (traced d) migrations (s0, tr @ [CreateCall])") auto
    note v' = traced_Validate [OF v]
    show ?thesis
    proof (cases ve)
      case (Some err)
      then show ?thesis using assms Pair None v v' by (auto simp: Migrate_def traced_Create)
    next
      case vn: None
      obtain pr PS where p: "planMigration (traced d) vms VS = (pr, PS)"
        by (cases "planMigration (traced d) vms VS") auto
      have p': "planMigration d vms (fst VS) = (pr, fst PS)"
        using traced_planMigration [of d vms "fst VS" "snd VS" pr PS] p by simp
      show ?thesis
      proof (cases pr)
        case (Inl err)
        then show ?thesis
          using assms Pair None v v' vn p p' by (auto simp: Migrate_def traced_Create)
      next
        case (Inr planned)
        obtain le LS where l: "migrateLoop md5 (\<lambda>S. now (fst S)) (traced d) planned PS =
            (le, LS)"
          by (cases "migrateLoop md5 (\<lambda>S. now (fst S)) (traced d) planned PS") auto
        have "migrateLoop md5 now d planned (fst PS) = (le, fst LS)"
          using traced_migrateLoop [of md5 now d planned "fst PS" "snd PS" le LS] l by simp
        then show ?thesis
          using assms Pair None v v' vn p p' Inr l by (auto simp: Migrate_def traced_Create)
      qed
    qed
  qed
qed

section \<open>What the checks of Validate decide\<close>

lemma float64_eq_iff: "float64_eq a b \<longleftrightarrow> a = b \<and> b \<noteq> NaN"
  by (auto simp: float64_eq_def)

lemma isInvalidVersion_iff:
  "snd (isInvalidVersion ms) \<longleftrightarrow> (\<exists>m \<in> set ms. float64_less (Version m) (Num 0))"
  by (induction ms) (auto simp: Let_def)

lemma isInvalidVersion_fst:
  "snd (isInvalidVersion ms) \<Longrightarrow>
     float64_less (fst (isInvalidVersion ms)) (Num 0) \<and>
     fst (isInvalidVersion ms) \<in> Version ` set ms"
  by (induction ms) (auto simp: Let_def)

lemma isDuplicatedLoop_iff:
  "snd (isDuplicatedLoop u ms) \<longleftrightarrow>
     \<not> (distinct (filter (\<lambda>v. v \<noteq> NaN) (map Version ms)) \<and>
        dom u \<inter> (Version ` set ms - {NaN}) = {})"
  by (induction ms arbitrary: u) (auto simp: mapLoad_def mapStore_def split: option.split)

lemma isDuplicated_iff:
  "snd (isDuplicated ms) \<longleftrightarrow> \<not> distinct (filter (\<lambda>v. v \<noteq> NaN) (map Version ms))"
  by (simp add: isDuplicated_def isDuplicatedLoop_iff)

lemma isDuplicatedLoop_fst:
  "snd (isDuplicatedLoop u ms) \<Longrightarrow>
     fst (isDuplicatedLoop u ms) \<noteq> NaN \<and>
     ((fst (isDuplicatedLoop u ms) \<in> dom u \<and> fst (isDuplicatedLoop u ms) \<in> Version ` set ms) \<or>
      1 < count (mset (map Version ms)) (fst (isDuplicatedLoop u ms)))"
proof (induction ms arbitrary: u)
  case Nil
  then show ?case by simp
next
  case (Cons m rest)
  show ?case
  proof (cases "mapLoad u (Version m)")
    case (Some x)
    then show ?thesis by (auto simp: mapLoad_def split: if_splits)
  next
    case None
    let ?u = "mapStore u (Version m) m"
    let ?v = "fst (isDuplicatedLoop ?u rest)"
    from None Cons.prems have s: "snd (isDuplicatedLoop ?u rest)" by simp
    from Cons.IH [OF s] have nn: "?v \<noteq> NaN" and
      "(?v \<in> dom ?u \<and> ?v \<in> Version ` set rest) \<or> 1 < count (mset (map Version rest)) ?v"
      by blast+
    moreover have "?v \<in> Version ` set rest \<Longrightarrow> 0 < count (mset (map Version rest)) ?v"
      by (simp add: count_greater_zero_iff)
    ultimately show ?thesis using None
      by (auto simp: mapStore_def simp del: count_greater_zero_iff split: if_splits)
  qed
qed

lemma isDuplicated_fst:
  "snd (isDuplicated ms) \<Longrightarrow>
     fst (isDuplicated ms) \<noteq> NaN \<and> 1 < count (mset (map Version ms)) (fst (isDuplicated ms))"
  using isDuplicatedLoop_fst [of Map.empty ms] by (simp add: isDuplicated_def)

lemma dom_versionMap:
  "dom (foldl (\<lambda>versionMap migration. mapStore versionMap (Version migration) migration) u ms) =
     dom u \<union> (Version ` set ms - {NaN})"
  by (induction ms arbitrary: u) (auto simp: mapStore_def)

lemma mapLoad_None_iff: "mapLoad vm k = None \<longleftrightarrow> k = NaN \<or> k \<notin> dom vm"
  by (auto simp: mapLoad_def)

lemma wasRemovedLoop_iff:
  "snd (wasRemovedLoop vm rs) \<longleftrightarrow> (\<exists>r \<in> set rs. mapLoad vm (RecVersion r) = None)"
  by (induction rs) (auto split: option.split)

lemma wasRemovedLoop_fst:
  "snd (wasRemovedLoop vm rs) \<Longrightarrow>
     \<exists>r \<in> set rs. fst (wasRemovedLoop vm rs) = RecVersion r \<and> mapLoad vm (RecVersion r) = None"
  by (induction rs) (auto split: option.split)

lemma versionMap_None_iff:
  "mapLoad (foldl (\<lambda>versionMap migration. mapStore versionMap (Version migration) migration)
      Map.empty ms) v = None \<longleftrightarrow> \<not> (\<exists>m \<in> set ms. float64_eq v (Version m))"
  unfolding mapLoad_None_iff dom_versionMap by (auto simp: float64_eq_def)

lemma wasRemovedMigration_iff:
  "snd (wasRemovedMigration applied ms) \<longleftrightarrow>
     (\<exists>r \<in> set applied. \<not> (\<exists>m \<in> set ms. float64_eq (RecVersion r) (Version m)))"
  by (simp add: wasRemovedMigration_def wasRemovedLoop_iff versionMap_None_iff)

lemma wasRemovedMigration_fst:
  "snd (wasRemovedMigration applied ms) \<Longrightarrow>
     \<exists>r \<in> set applied. fst (wasRemovedMigration applied ms) = RecVersion r \<and>
        \<not> (\<exists>m \<in> set ms. float64_eq (RecVersion r) (Version m))"
  using wasRemovedLoop_fst
    [of "foldl (\<lambda>versionMap migration. mapStore versionMap (Version migration) migration)
           Map.empty ms" applied]
  by (simp add: wasRemovedMigration_def versionMap_None_iff)

lemma recordMap_filter:
  "foldl (\<lambda>versionMap migration. mapStore versionMap (RecVersion migration) migration) u rs =
   foldl (\<lambda>versionMap migration. versionMap(RecVersion migration \<mapsto> migration)) u
     (filter (\<lambda>r. RecVersion r \<noteq> NaN) rs)"
  by (induction rs arbitrary: u) (auto simp: mapStore_def)

lemma recordMap_map_of:
  "foldl (\<lambda>versionMap migration. versionMap(RecVersion migration \<mapsto> migration)) u rs =
     u ++ map_of (rev (map (\<lambda>r. (RecVersion r, r)) rs))"
proof (induction rs arbitrary: u)
  case Nil
  show ?case by simp
next
  case (Cons r rs)
  have "u(RecVersion r \<mapsto> r) = u ++ map_of [(RecVersion r, r)]" by simp
  then show ?case
    by (simp only: foldl_Cons Cons.IH list.map rev.simps map_of_append map_add_assoc)
qed

lemma recordMap_distinct:
  assumes "distinct (map RecVersion rs)"
  shows "mapLoad
           (foldl (\<lambda>versionMap migration. mapStore versionMap (RecVersion migration) migration)
              Map.empty rs) v = Some r \<longleftrightarrow> r \<in> set rs \<and> float64_eq (RecVersion r) v"
proof -
  let ?rs = "filter (\<lambda>r. RecVersion r \<noteq> NaN) rs"
  let ?ps = "rev (map (\<lambda>r. (RecVersion r, r)) ?rs)"
  have "map fst ?ps = rev (map RecVersion ?rs)" by (simp add: rev_map comp_def)
  moreover have "distinct (map RecVersion ?rs)" using assms by (rule distinct_map_filter)
  ultimately have d: "distinct (map fst ?ps)" by simp
  have "map_of ?ps v = Some r \<longleftrightarrow> (v, r) \<in> set ?ps"
    using d by (rule map_of_eq_Some_iff)
  also have "\<dots> \<longleftrightarrow> r \<in> set rs \<and> RecVersion r = v \<and> v \<noteq> NaN" by auto
  finally show ?thesis
    by (auto simp: recordMap_filter recordMap_map_of mapLoad_def float64_eq_def)
qed

lemma isInvalidChecksumLoop_iff:
  "snd (isInvalidChecksumLoop md5 vm ms) \<longleftrightarrow>
     (\<exists>m \<in> set ms. \<exists>r. mapLoad vm (Version m) = Some r \<and> Checksum r \<noteq> md5 (Script m))"
  by (induction ms) (auto simp: MigrationChecksum_def split: option.split)

lemma isInvalidChecksumLoop_fst:
  "snd (isInvalidChecksumLoop md5 vm ms) \<Longrightarrow>
     \<exists>m \<in> set ms. \<exists>r. fst (isInvalidChecksumLoop md5 vm ms) = Version m \<and>
        mapLoad vm (Version m) = Some r \<and> Checksum r \<noteq> md5 (Script m)"
  by (induction ms) (auto simp: MigrationChecksum_def split: option.split)

lemma isInvalidChecksumMigration_iff:
  assumes "distinct (map RecVersion applied)"
  shows "snd (isInvalidChecksumMigration md5 applied ms) \<longleftrightarrow>
     (\<exists>r \<in> set applied. \<exists>m \<in> set ms.
        float64_eq (RecVersion r) (Version m) \<and> Checksum r \<noteq> md5 (Script m))"
  unfolding isInvalidChecksumMigration_def isInvalidChecksumLoop_iff
    recordMap_distinct [OF assms]
  by blast

lemma isInvalidChecksumMigration_fst:
  assumes "distinct (map RecVersion applied)"
    and "snd (isInvalidChecksumMigration md5 applied ms)"
  shows "\<exists>r \<in> set applied. \<exists>m \<in> set ms.
      fst (isInvalidChecksumMigration md5 applied ms) = Version m \<and>
      float64_eq (RecVersion r) (Version m) \<and> Checksum r \<noteq> md5 (Script m)"
  using isInvalidChecksumLoop_fst [OF assms(2) [unfolded isInvalidChecksumMigration_def]]
  unfolding isInvalidChecksumMigration_def recordMap_distinct [OF assms(1)]
  by blast

lemma distinct_versions_sortSort:
  "distinct (filter P (map Version (sortSort lt ms))) = distinct (filter P (map Version ms))"
proof -
  have "mset (filter P (map Version (sortSort lt ms))) = mset (filter P (map Version ms))"
    by (simp add: mset_sortSort)
  then show ?thesis by (rule mset_eq_imp_distinct_iff)
qed

lemma Validate_cases:
  "case Validate md5 d migrations s of (res, ms, t) \<Rightarrow>
     (if \<exists>m \<in> set migrations. float64_less (Version m) (Num 0)
      then t = s \<and>
        (\<exists>v. res = Some (IllegalMigrationVersionError v) \<and> float64_less v (Num 0) \<and>
              v \<in> Version ` set migrations)
      else if \<not> distinct (filter (\<lambda>v. v \<noteq> NaN) (map Version migrations))
      then t = s \<and>
        (\<exists>v. res = Some (DuplicateMigrationVersionError v) \<and> v \<noteq> NaN \<and>
              1 < count (mset (map Version migrations)) v)
      else
        (case AllRecords d s of
           (Inl err, s') \<Rightarrow> t = s' \<and> res = Some err
         | (Inr applied, s') \<Rightarrow> t = s' \<and>
             (if \<exists>r \<in> set applied.
                   \<not> (\<exists>m \<in> set migrations. float64_eq (RecVersion r) (Version m))
              then \<exists>r \<in> set applied. res = Some (RemovedMigrationError (RecVersion r)) \<and>
                     \<not> (\<exists>m \<in> set migrations. float64_eq (RecVersion r) (Version m))
              else distinct (map RecVersion applied) \<longrightarrow>
                (if \<exists>r \<in> set applied. \<exists>m \<in> set migrations.
                       float64_eq (RecVersion r) (Version m) \<and>
                       Checksum r \<noteq> MigrationChecksum md5 m
                 then \<exists>r \<in> set applied. \<exists>m \<in> set migrations.
                        res = Some (InvalidChecksumError (Version m)) \<and>
                        float64_eq (RecVersion r) (Version m) \<and>
                        Checksum r \<noteq> MigrationChecksum md5 m
                 else res = None))))"
proof -
  let ?ms = "sortSort byMigrationVersion migrations"
  let ?nn = "\<lambda>v. v \<noteq> NaN"
  have st: "set ?ms = set migrations" by (rule set_sortSort)
  have ms: "mset (map Version ?ms) = mset (map Version migrations)"
    by (simp add: mset_sortSort)
  have di: "distinct (filter ?nn (map Version ?ms)) =
      distinct (filter ?nn (map Version migrations))"
    by (rule distinct_versions_sortSort)
  show ?thesis
  proof (cases "snd (isInvalidVersion ?ms)")
    case True
    then have "\<exists>m \<in> set migrations. float64_less (Version m) (Num 0)"
      using isInvalidVersion_iff [of ?ms] st by simp
    moreover have "float64_less (fst (isInvalidVersion ?ms)) (Num 0) \<and>
        fst (isInvalidVersion ?ms) \<in> Version ` set migrations"
      using isInvalidVersion_fst [OF True] st by simp
    ultimately show ?thesis using True by (simp add: Validate_def Let_def)
  next
    case noInvalid: False
    then have n1: "\<not> (\<exists>m \<in> set migrations. float64_less (Version m) (Num 0))"
      using isInvalidVersion_iff [of ?ms] st by simp
    show ?thesis
    proof (cases "snd (isDuplicated ?ms)")
      case True
      then have "\<not> distinct (filter ?nn (map Version migrations))"
        using isDuplicated_iff [of ?ms] di by simp
      moreover have "fst (isDuplicated ?ms) \<noteq> NaN \<and>
          1 < count (mset (map Version migrations)) (fst (isDuplicated ?ms))"
        using isDuplicated_fst [OF True] ms by simp
      ultimately show ?thesis using True noInvalid n1 by (simp add: Validate_def Let_def)
    next
      case noDup: False
      then have n2: "distinct (filter ?nn (map Version migrations))"
        using isDuplicated_iff [of ?ms] di by simp
      obtain r s' where a: "AllRecords d s = (r, s')" by (cases "AllRecords d s") auto
      show ?thesis
      proof (cases r)
        case (Inl err)
        then show ?thesis using a noInvalid noDup n1 n2 by (simp add: Validate_def Let_def)
      next
        case (Inr applied)
        show ?thesis
        proof (cases "snd (wasRemovedMigration applied ?ms)")
          case True
          have "\<exists>r \<in> set applied.
              \<not> (\<exists>m \<in> set migrations. float64_eq (RecVersion r) (Version m))"
            using wasRemovedMigration_iff [of applied ?ms] True st by simp
          moreover have "\<exists>r \<in> set applied.
              fst (wasRemovedMigration applied ?ms) = RecVersion r \<and>
              \<not> (\<exists>m \<in> set migrations. float64_eq (RecVersion r) (Version m))"
            using wasRemovedMigration_fst [OF True] st by simp
          ultimately show ?thesis
            using a Inr noInvalid noDup n1 n2 True by (auto simp: Validate_def Let_def)
        next
          case noRemoved: False
          then have n3: "\<not> (\<exists>r \<in> set applied.
              \<not> (\<exists>m \<in> set migrations. float64_eq (RecVersion r) (Version m)))"
            using wasRemovedMigration_iff [of applied ?ms] st by simp
          show ?thesis
          proof (cases "distinct (map RecVersion applied)")
            case False
            then show ?thesis
              using a Inr noInvalid noDup n1 n2 noRemoved n3
              by (simp add: Validate_def Let_def)
          next
            case dr: True
            show ?thesis
            proof (cases "snd (isInvalidChecksumMigration md5 applied ?ms)")
              case True
              have "\<exists>r \<in> set applied. \<exists>m \<in> set migrations.
                  float64_eq (RecVersion r) (Version m) \<and>
                  Checksum r \<noteq> MigrationChecksum md5 m"
                using isInvalidChecksumMigration_iff [OF dr, of md5 ?ms] True st
                by (simp add: MigrationChecksum_def)
              moreover have "\<exists>r \<in> set applied. \<exists>m \<in> set migrations.
                  fst (isInvalidChecksumMigration md5 applied ?ms) = Version m \<and>
                  float64_eq (RecVersion r) (Version m) \<and>
                  Checksum r \<noteq> MigrationChecksum md5 m"
                using isInvalidChecksumMigration_fst [OF dr True] st
                by (simp add: MigrationChecksum_def)
              ultimately show ?thesis
                using a Inr noInvalid noDup n1 n2 noRemoved n3 True
                by (simp add: Validate_def Let_def)
            next
              case False
              then have "\<not> (\<exists>r \<in> set applied. \<exists>m \<in> set migrations.
                  float64_eq (RecVersion r) (Version m) \<and>
                  Checksum r \<noteq> MigrationChecksum md5 m)"
                using isInvalidChecksumMigration_iff [OF dr, of md5 ?ms] st
                by (simp add: MigrationChecksum_def)
              then show ?thesis
                using a Inr noInvalid noDup n1 n2 noRemoved n3 False
                by (auto simp: Validate_def Let_def)
            qed
          qed
        qed
      qed
    qed
  qed
qed

section \<open>The order of the checks of Validate\<close>

text \<open>
  Claim C5: \<^verbatim>\<open>Validate\<close> checks in a fixed order and stops at the first failure. The
  conditions are those of the code, with Go's \<^verbatim>\<open><\<close> and \<^verbatim>\<open>==\<close> on \<^verbatim>\<open>float64\<close>, and hold
  for every migration list and every history, NaN and the infinities included. A
  migration with a version below 0 gives \<open>IllegalMigrationVersionError\<close> with such a
  version; otherwise two migrations with one version (which is then not NaN, as NaN
  equals nothing) give \<open>DuplicateMigrationVersionError\<close> with a version that occurs more
  than once; in both cases the driver is not called (its state is unchanged). Otherwise
  the history is fetched (an error of the fetch is returned as it is); a record whose
  version equals that of no migration gives \<open>RemovedMigrationError\<close> with the version of
  such a record; otherwise a record whose checksum differs from the checksum of the
  migration with its version gives \<open>InvalidChecksumError\<close> with the version of such a
  migration; otherwise \<^verbatim>\<open>Validate\<close> returns no error. The checksum step is stated for a
  history with one record per version, which is what the bookkeeping table
  (\<^verbatim>\<open>UNIQUE (version)\<close>) holds. None of the conditions depends on the order of the
  migrations, so they do not depend on how \<^verbatim>\<open>sort.Sort\<close> arranges the slice.
\<close>

theorem Validate_checks_in_order:
  "case Validate md5 d migrations s of (res, ms, t) \<Rightarrow>
     (if \<exists>m \<in> set migrations. float64_less (Version m) (Num 0)
      then t = s \<and>
        (\<exists>v. res = Some (IllegalMigrationVersionError v) \<and> float64_less v (Num 0) \<and>
              v \<in> Version ` set migrations)
      else if \<not> distinct (filter (\<lambda>v. v \<noteq> NaN) (map Version migrations))
      then t = s \<and>
        (\<exists>v. res = Some (DuplicateMigrationVersionError v) \<and> v \<noteq> NaN \<and>
              1 < count (mset (map Version migrations)) v)
      else
        (case AllRecords d s of
           (Inl err, s') \<Rightarrow> t = s' \<and> res = Some err
         | (Inr applied, s') \<Rightarrow> t = s' \<and>
             (if \<exists>r \<in> set applied.
                   \<not> (\<exists>m \<in> set migrations. float64_eq (RecVersion r) (Version m))
              then \<exists>r \<in> set applied. res = Some (RemovedMigrationError (RecVersion r)) \<and>
                     \<not> (\<exists>m \<in> set migrations. float64_eq (RecVersion r) (Version m))
              else distinct (map RecVersion applied) \<longrightarrow>
                (if \<exists>r \<in> set applied. \<exists>m \<in> set migrations.
                       float64_eq (RecVersion r) (Version m) \<and>
                       Checksum r \<noteq> MigrationChecksum md5 m
                 then \<exists>r \<in> set applied. \<exists>m \<in> set migrations.
                        res = Some (InvalidChecksumError (Version m)) \<and>
                        float64_eq (RecVersion r) (Version m) \<and>
                        Checksum r \<noteq> MigrationChecksum md5 m
                 else res = None))))"
  by (rule Validate_cases)

theorem Validate_checks_in_order_witness:
  "Validate id (memoryDriver (\<lambda>x. False) (\<lambda>x. 0))
     [\<lparr>Version = Num 2, Description = ''b'', Script = ''s2''\<rparr>,
      \<lparr>Version = Num 1, Description = ''a'', Script = ''s1 edited''\<rparr>]
     \<lparr>table = [\<lparr>RecVersion = Num 1, RecDescription = ''a'', Checksum = ''s1'', AppliedAt = 0,
                ExecutionTime = 0\<rparr>], executed = []\<rparr> =
   (Some (InvalidChecksumError (Num 1)),
    [\<lparr>Version = Num 1, Description = ''a'', Script = ''s1 edited''\<rparr>,
     \<lparr>Version = Num 2, Description = ''b'', Script = ''s2''\<rparr>],
    \<lparr>table = [\<lparr>RecVersion = Num 1, RecDescription = ''a'', Checksum = ''s1'', AppliedAt = 0,
                ExecutionTime = 0\<rparr>], executed = []\<rparr>)"
  using Validate_checks_in_order
    [where ?md5.0 = id and d = "memoryDriver (\<lambda>x. False) (\<lambda>x. 0)"
       and migrations = "[\<lparr>Version = Num 2, Description = ''b'', Script = ''s2''\<rparr>,
          \<lparr>Version = Num 1, Description = ''a'', Script = ''s1 edited''\<rparr>]"
       and s = "\<lparr>table = [\<lparr>RecVersion = Num 1, RecDescription = ''a'', Checksum = ''s1'',
                AppliedAt = 0, ExecutionTime = 0\<rparr>], executed = []\<rparr>"]
  by (simp add: Validate_def memoryDriver_def sortSort_def byMigrationVersion_def
      isDuplicated_def wasRemovedMigration_def isInvalidChecksumMigration_def
      mapLoad_def mapStore_def MigrationChecksum_def)

text \<open>
  With NaN: two migrations whose version is NaN are no duplicates, and a record whose
  version is NaN matches no migration, also not one whose version is NaN.
\<close>

lemma Validate_NaN_versions:
  "fst (Validate id (memoryDriver (\<lambda>x. False) (\<lambda>x. 0))
     [\<lparr>Version = NaN, Description = ''a'', Script = ''s1''\<rparr>,
      \<lparr>Version = NaN, Description = ''b'', Script = ''s2''\<rparr>]
     \<lparr>table = [], executed = []\<rparr>) = None \<and>
   fst (Validate id (memoryDriver (\<lambda>x. False) (\<lambda>x. 0))
     [\<lparr>Version = NaN, Description = ''a'', Script = ''s1''\<rparr>]
     \<lparr>table = [\<lparr>RecVersion = NaN, RecDescription = ''a'', Checksum = ''s1'', AppliedAt = 0,
                ExecutionTime = 0\<rparr>], executed = []\<rparr>) = Some (RemovedMigrationError NaN)"
  by (simp add: Validate_def memoryDriver_def sortSort_def byMigrationVersion_def
      isDuplicated_def wasRemovedMigration_def isInvalidChecksumMigration_def
      mapLoad_def mapStore_def MigrationChecksum_def)

section \<open>Checksum sensitivity\<close>

lemma Migrate_Validate_error:
  assumes "Create d s0 = (None, s)" and "fst (Validate md5 d ms s) = Some e"
  shows "fst (Migrate md5 now d ms s0) = Some e"
  using assms by (cases "Validate md5 d ms s") (simp add: Migrate_def)

lemma Validate_None_facts:
  assumes "AllRecords d s = (Inr applied, s')"
    and "distinct (map RecVersion applied)"
    and "fst (Validate md5 d migrations s) = None"
  shows "\<not> (\<exists>m \<in> set migrations. float64_less (Version m) (Num 0))"
    and "distinct (filter (\<lambda>v. v \<noteq> NaN) (map Version migrations))"
    and "\<not> (\<exists>r \<in> set applied.
            \<not> (\<exists>m \<in> set migrations. float64_eq (RecVersion r) (Version m)))"
    and "\<not> (\<exists>r \<in> set applied. \<exists>m \<in> set migrations.
            float64_eq (RecVersion r) (Version m) \<and> Checksum r \<noteq> MigrationChecksum md5 m)"
proof -
  obtain res ms t where v: "Validate md5 d migrations s = (res, ms, t)"
    by (cases "Validate md5 d migrations s") auto
  with assms(3) have res: "res = None" by simp
  note c = Validate_cases [where ?md5.0 = md5 and d = d and migrations = migrations and s = s,
      unfolded v, simplified res]
  show 1: "\<not> (\<exists>m \<in> set migrations. float64_less (Version m) (Num 0))"
    using c by (auto split: if_splits)
  show 2: "distinct (filter (\<lambda>v. v \<noteq> NaN) (map Version migrations))"
    using c 1 by (auto split: if_splits)
  show 3: "\<not> (\<exists>r \<in> set applied.
            \<not> (\<exists>m \<in> set migrations. float64_eq (RecVersion r) (Version m)))"
    using c 1 2 assms(1) by (auto split: if_splits)
  show "\<not> (\<exists>r \<in> set applied. \<exists>m \<in> set migrations.
            float64_eq (RecVersion r) (Version m) \<and> Checksum r \<noteq> MigrationChecksum md5 m)"
    using c 1 2 3 assms(1,2) by (auto split: if_splits)
qed

text \<open>
  Claim C6: take a migration set that validates against the history, in which the
  migration with version \<open>v\<close> has a record \<open>r\<close>. If the script of that migration is
  replaced (its version kept) by one whose checksum differs from the recorded checksum,
  the next \<^verbatim>\<open>Validate\<close> returns \<open>InvalidChecksumError v\<close>, and so does the next
  \<^verbatim>\<open>Migrate\<close> once \<^verbatim>\<open>Create\<close> has returned no error. The other migrations may have any
  version, NaN included; \<open>v\<close> itself is not NaN, since a record with version NaN matches
  no migration and the set would not validate.
\<close>

theorem checksum_sensitivity:
  assumes "AllRecords d s = (Inr applied, s')"
    and "distinct (map RecVersion applied)"
    and "fst (Validate md5 d migrations s) = None"
    and "r \<in> set applied" and "RecVersion r = v"
    and "md5 script' \<noteq> Checksum r"
  shows "fst (Validate md5 d
            (map (\<lambda>m. if Version m = v then m\<lparr>Script := script'\<rparr> else m) migrations) s) =
           Some (InvalidChecksumError v) \<and>
         (Create d s0 = (None, s) \<longrightarrow>
          fst (Migrate md5 now d
            (map (\<lambda>m. if Version m = v then m\<lparr>Script := script'\<rparr> else m) migrations) s0) =
           Some (InvalidChecksumError v))"
proof -
  let ?f = "\<lambda>m. if Version m = v then m\<lparr>Script := script'\<rparr> else m"
  let ?ms = "map ?f migrations"
  note old = Validate_None_facts [OF assms(1,2,3)]
  have vs: "map Version ?ms = map Version migrations" by (induction migrations) auto
  have vset: "Version ` set ?ms = Version ` set migrations"
    using vs by (metis list.set_map)
  have ex: "(\<exists>m \<in> set ?ms. P (Version m)) \<longleftrightarrow> (\<exists>m \<in> set migrations. P (Version m))" for P
  proof -
    have "(\<exists>m \<in> set ?ms. P (Version m)) \<longleftrightarrow> (\<exists>x \<in> Version ` set ?ms. P x)" by blast
    also have "\<dots> \<longleftrightarrow> (\<exists>x \<in> Version ` set migrations. P x)" by (simp only: vset)
    also have "\<dots> \<longleftrightarrow> (\<exists>m \<in> set migrations. P (Version m))" by blast
    finally show ?thesis .
  qed
  have 1: "\<not> (\<exists>m \<in> set ?ms. float64_less (Version m) (Num 0))"
    using old(1) unfolding ex [of "\<lambda>x. float64_less x (Num 0)"] .
  have 2: "distinct (filter (\<lambda>v. v \<noteq> NaN) (map Version ?ms))" using old(2) by (simp only: vs)
  have 3: "\<not> (\<exists>r \<in> set applied. \<not> (\<exists>m \<in> set ?ms. float64_eq (RecVersion r) (Version m)))"
    using old(3) unfolding ex [of "\<lambda>x. float64_eq (RecVersion r) x" for r] .
  obtain m where m: "m \<in> set migrations" "float64_eq (RecVersion r) (Version m)"
    using old(3) assms(4) by blast
  then have mv: "Version m = v" and vn: "v \<noteq> NaN"
    using assms(5) by (auto simp: float64_eq_def)
  have "?f m \<in> set ?ms" using m(1) by simp
  moreover have "float64_eq (RecVersion r) (Version (?f m))" using m(2) by auto
  moreover have "Checksum r \<noteq> MigrationChecksum md5 (?f m)"
    using mv assms(6) by (simp add: MigrationChecksum_def)
  ultimately have 4: "\<exists>r \<in> set applied. \<exists>m \<in> set ?ms.
      float64_eq (RecVersion r) (Version m) \<and> Checksum r \<noteq> MigrationChecksum md5 m"
    using assms(4) by blast
  obtain res ms' t where v: "Validate md5 d ?ms s = (res, ms', t)"
    by (cases "Validate md5 d ?ms s") auto
  have "\<exists>r \<in> set applied. \<exists>m \<in> set ?ms.
      res = Some (InvalidChecksumError (Version m)) \<and>
      float64_eq (RecVersion r) (Version m) \<and> Checksum r \<noteq> MigrationChecksum md5 m"
    using Validate_cases [where ?md5.0 = md5 and d = d and migrations = ?ms and s = s,
        unfolded v] 1 2 3 4 assms(1,2)
    by (simp del: set_map list.map_comp)
  then obtain r' m' where r': "r' \<in> set applied" and m': "m' \<in> set ?ms"
    and res: "res = Some (InvalidChecksumError (Version m'))"
    and eq: "float64_eq (RecVersion r') (Version m')"
    and ne: "Checksum r' \<noteq> MigrationChecksum md5 m'"
    by blast
  have "Version m' = v"
  proof (rule ccontr)
    assume "Version m' \<noteq> v"
    then have "m' \<in> set migrations" using m' by auto
    then show False using old(4) r' eq ne by blast
  qed
  then have "fst (Validate md5 d ?ms s) = Some (InvalidChecksumError v)"
    using v res by simp
  then show ?thesis
    using Migrate_Validate_error
      [where d = d and ?s0.0 = s0 and s = s and ?md5.0 = md5 and ms = ?ms and now = now]
    by simp
qed

theorem checksum_sensitivity_witness:
  "fst (Validate id (memoryDriver (\<lambda>x. False) (\<lambda>x. 0))
      [\<lparr>Version = Num 1, Description = ''a'', Script = ''s1 edited''\<rparr>,
       \<lparr>Version = NaN, Description = ''b'', Script = ''s2''\<rparr>]
      \<lparr>table = [\<lparr>RecVersion = Num 1, RecDescription = ''a'', Checksum = ''s1'', AppliedAt = 0,
                 ExecutionTime = 0\<rparr>], executed = [''s1'']\<rparr>) =
     Some (InvalidChecksumError (Num 1)) \<and>
   fst (Migrate id memoryNow (memoryDriver (\<lambda>x. False) (\<lambda>x. 0))
      [\<lparr>Version = Num 1, Description = ''a'', Script = ''s1 edited''\<rparr>,
       \<lparr>Version = NaN, Description = ''b'', Script = ''s2''\<rparr>]
      \<lparr>table = [\<lparr>RecVersion = Num 1, RecDescription = ''a'', Checksum = ''s1'', AppliedAt = 0,
                 ExecutionTime = 0\<rparr>], executed = [''s1'']\<rparr>) =
     Some (InvalidChecksumError (Num 1))"
proof -
  let ?d = "memoryDriver (\<lambda>x. False) (\<lambda>x. 0)"
  let ?r = "\<lparr>RecVersion = Num 1, RecDescription = ''a'', Checksum = ''s1'', AppliedAt = 0,
             ExecutionTime = 0\<rparr>"
  let ?s = "\<lparr>table = [?r], executed = [''s1'']\<rparr>"
  let ?ms = "[\<lparr>Version = Num 1, Description = ''a'', Script = ''s1''\<rparr>,
              \<lparr>Version = NaN, Description = ''b'', Script = ''s2''\<rparr>]"
  have a: "AllRecords ?d ?s = (Inr [?r], ?s)" by (simp add: memoryDriver_def)
  have b: "distinct (map RecVersion [?r])" by simp
  have c: "fst (Validate id ?d ?ms ?s) = None"
    by (simp add: Validate_def memoryDriver_def sortSort_def byMigrationVersion_def
        isDuplicated_def wasRemovedMigration_def isInvalidChecksumMigration_def
        mapLoad_def mapStore_def MigrationChecksum_def)
  have e: "?r \<in> set [?r]" by simp
  have f: "RecVersion ?r = Num 1" by simp
  have g: "id ''s1 edited'' \<noteq> Checksum ?r" by simp
  have h: "Create ?d ?s = (None, ?s)" by (simp add: memoryDriver_def)
  from checksum_sensitivity [OF a b c e f g, where ?s0.0 = ?s and now = memoryNow] h
  show ?thesis by (simp add: id_def)
qed

section \<open>The caller's slice after Validate and Migrate\<close>

lemma Validate_slice:
  "fst (snd (Validate md5 d migrations s)) = sortSort byMigrationVersion migrations"
  by (simp add: Validate_def Let_def split: prod.split sum.split)

lemma Migrate_slice:
  assumes "fst (Create d s) = None"
  shows "fst (snd (Migrate md5 now d migrations s)) = sortSort byMigrationVersion migrations"
proof -
  obtain s0 where c: "Create d s = (None, s0)"
    using assms by (cases "Create d s") auto
  obtain e ms s1 where v: "Validate md5 d migrations s0 = (e, ms, s1)"
    by (cases "Validate md5 d migrations s0") auto
  have ms: "ms = sortSort byMigrationVersion migrations"
    using Validate_slice [of md5 d migrations s0] v by simp
  show ?thesis
    using c v ms by (simp add: Migrate_def split: option.split prod.split sum.split)
qed

text \<open>
  Claim C10 says that the slice the caller holds after \<^verbatim>\<open>Validate\<close> (and after
  \<^verbatim>\<open>Migrate\<close>) is in ascending order of version. \<^verbatim>\<open>Validate\<close> hands the slice to
  \<^verbatim>\<open>sort.Sort\<close> with \<^verbatim>\<open><\<close> on the versions as \<^verbatim>\<open>Less\<close>, and nothing keeps NaN out of
  the versions. On the versions 2, NaN, 1 the sort moves nothing (NaN is not less than
  2, and 1 is not less than NaN), \<^verbatim>\<open>Validate\<close> and \<^verbatim>\<open>Migrate\<close> succeed, and the caller's
  slice still has version 2 before version 1.
\<close>

theorem Validate_slice_NaN_counterexample:
  "Validate id (memoryDriver (\<lambda>x. False) (\<lambda>x. 0))
     [\<lparr>Version = Num 2, Description = ''b'', Script = ''s2''\<rparr>,
      \<lparr>Version = NaN, Description = ''n'', Script = ''sn''\<rparr>,
      \<lparr>Version = Num 1, Description = ''a'', Script = ''s1''\<rparr>]
     \<lparr>table = [], executed = []\<rparr> =
   (None,
    [\<lparr>Version = Num 2, Description = ''b'', Script = ''s2''\<rparr>,
     \<lparr>Version = NaN, Description = ''n'', Script = ''sn''\<rparr>,
     \<lparr>Version = Num 1, Description = ''a'', Script = ''s1''\<rparr>],
    \<lparr>table = [], executed = []\<rparr>) \<and>
   fst (snd (Migrate id memoryNow (memoryDriver (\<lambda>x. False) (\<lambda>x. 0))
     [\<lparr>Version = Num 2, Description = ''b'', Script = ''s2''\<rparr>,
      \<lparr>Version = NaN, Description = ''n'', Script = ''sn''\<rparr>,
      \<lparr>Version = Num 1, Description = ''a'', Script = ''s1''\<rparr>]
     \<lparr>table = [], executed = []\<rparr>)) =
    [\<lparr>Version = Num 2, Description = ''b'', Script = ''s2''\<rparr>,
     \<lparr>Version = NaN, Description = ''n'', Script = ''sn''\<rparr>,
     \<lparr>Version = Num 1, Description = ''a'', Script = ''s1''\<rparr>] \<and>
   \<not> sorted_wrt (\<lambda>a b. \<not> float64_less (Version b) (Version a))
     [\<lparr>Version = Num 2, Description = ''b'', Script = ''s2''\<rparr>,
      \<lparr>Version = NaN, Description = ''n'', Script = ''sn''\<rparr>,
      \<lparr>Version = Num 1, Description = ''a'', Script = ''s1''\<rparr>]"
  by (simp add: Migrate_def planMigration_def Validate_def memoryDriver_def memoryNow_def
      sortSort_def byMigrationVersion_def isDuplicated_def wasRemovedMigration_def
      isInvalidChecksumMigration_def mapLoad_def mapStore_def MigrationChecksum_def)

text \<open>
  Claim C10 as amended. Whatever \<^verbatim>\<open>Validate\<close> returns, the slice the caller holds
  afterwards is the one \<^verbatim>\<open>sort.Sort\<close> has left, and so it is after \<^verbatim>\<open>Migrate\<close> once
  \<^verbatim>\<open>Create\<close> has returned no error. It is always a rearrangement of the same
  migrations, so every element keeps its version, description and script. When no
  version is NaN it is in ascending order of version: no element has a version less
  than that of an element before it.
\<close>

theorem Validate_sorts_in_place:
  "fst (snd (Validate md5 d migrations s)) = sortSort byMigrationVersion migrations \<and>
   (fst (Create d s) = None \<longrightarrow>
      fst (snd (Migrate md5 now d migrations s)) = sortSort byMigrationVersion migrations) \<and>
   mset (sortSort byMigrationVersion migrations) = mset migrations \<and>
   (NaN \<notin> Version ` set migrations \<longrightarrow>
      sorted_wrt (\<lambda>a b. \<not> float64_less (Version b) (Version a))
        (sortSort byMigrationVersion migrations))"
  by (simp add: Validate_slice Migrate_slice ascending_sortSort mset_sortSort)

theorem Validate_sorts_in_place_witness:
  "fst (snd (Validate id (memoryDriver (\<lambda>x. False) (\<lambda>x. 0))
      [\<lparr>Version = Num 2, Description = ''b'', Script = ''s2''\<rparr>,
       \<lparr>Version = PosInf, Description = ''c'', Script = ''s3''\<rparr>,
       \<lparr>Version = Num 1, Description = ''a'', Script = ''s1''\<rparr>]
      \<lparr>table = [], executed = []\<rparr>)) =
     [\<lparr>Version = Num 1, Description = ''a'', Script = ''s1''\<rparr>,
      \<lparr>Version = Num 2, Description = ''b'', Script = ''s2''\<rparr>,
      \<lparr>Version = PosInf, Description = ''c'', Script = ''s3''\<rparr>] \<and>
   fst (snd (Migrate id memoryNow (memoryDriver (\<lambda>x. False) (\<lambda>x. 0))
      [\<lparr>Version = Num 2, Description = ''b'', Script = ''s2''\<rparr>,
       \<lparr>Version = PosInf, Description = ''c'', Script = ''s3''\<rparr>,
       \<lparr>Version = Num 1, Description = ''a'', Script = ''s1''\<rparr>]
      \<lparr>table = [], executed = []\<rparr>)) =
     [\<lparr>Version = Num 1, Description = ''a'', Script = ''s1''\<rparr>,
      \<lparr>Version = Num 2, Description = ''b'', Script = ''s2''\<rparr>,
      \<lparr>Version = PosInf, Description = ''c'', Script = ''s3''\<rparr>] \<and>
   sorted_wrt (\<lambda>a b. \<not> float64_less (Version b) (Version a))
     [\<lparr>Version = Num 1, Description = ''a'', Script = ''s1''\<rparr>,
      \<lparr>Version = Num 2, Description = ''b'', Script = ''s2''\<rparr>,
      \<lparr>Version = PosInf, Description = ''c'', Script = ''s3''\<rparr>]"
  using Validate_sorts_in_place
    [of id "memoryDriver (\<lambda>x. False) (\<lambda>x. 0)"
        "[\<lparr>Version = Num 2, Description = ''b'', Script = ''s2''\<rparr>,
          \<lparr>Version = PosInf, Description = ''c'', Script = ''s3''\<rparr>,
          \<lparr>Version = Num 1, Description = ''a'', Script = ''s1''\<rparr>]"
        "\<lparr>table = [], executed = []\<rparr>" memoryNow]
  by (simp add: memoryDriver_def sortSort_def byMigrationVersion_def)

section \<open>The order of the plan\<close>








section \<open>Migrate twice\<close>
























text \<open>
  With records in the history before the first call, a migration of version NaN does no
  harm: it is never planned, so it is never recorded.
\<close>

lemma Migrate_twice_NaN_unplanned:
  "Migrate id memoryNow (memoryDriver (\<lambda>x. False) (\<lambda>x. 5))
     [\<lparr>Version = Num 2, Description = ''b'', Script = ''s2''\<rparr>,
      \<lparr>Version = NaN, Description = ''n'', Script = ''sn''\<rparr>,
      \<lparr>Version = Num 1, Description = ''a'', Script = ''s1''\<rparr>]
     \<lparr>table = [\<lparr>RecVersion = Num 1, RecDescription = ''a'', Checksum = ''s1'', AppliedAt = 1,
                ExecutionTime = 5\<rparr>],
      executed = [''s1'']\<rparr> =
   (None,
    [\<lparr>Version = Num 2, Description = ''b'', Script = ''s2''\<rparr>,
     \<lparr>Version = NaN, Description = ''n'', Script = ''sn''\<rparr>,
     \<lparr>Version = Num 1, Description = ''a'', Script = ''s1''\<rparr>],
    \<lparr>table =
        [\<lparr>RecVersion = Num 1, RecDescription = ''a'', Checksum = ''s1'', AppliedAt = 1,
            ExecutionTime = 5\<rparr>,
         \<lparr>RecVersion = Num 2, RecDescription = ''b'', Checksum = ''s2'', AppliedAt = 2,
            ExecutionTime = 5\<rparr>],
      executed = [''s1'', ''s2'']\<rparr>)"
  by (simp add: Migrate_def Validate_def planMigration_def memoryDriver_def memoryNow_def
      sortSort_def byMigrationVersion_def byMigrationRecordVersion_def Reverse_def
      isDuplicated_def wasRemovedMigration_def isInvalidChecksumMigration_def
      mapLoad_def mapStore_def MigrationChecksum_def)

end
